theory Spec2Isabelle
  imports
    Complex_Main
    "HOL-Library.AList"
    "HOL-Library.Char_ord"
    "HOL-Library.List_Lexorder"
    "HOL-Library.Product_Lexorder"
    "HOL-Library.Multiset"
begin

section \<open>Shared vocabulary\<close>

text \<open>
  Python dictionaries are association lists: \<open>AList.update\<close> replaces the value of a key
  that is present and appends a new key at the end, \<open>map_of\<close> looks a key up, and the
  order of the list is the order of iteration. Exceptions are values of \<open>error\<close>.
\<close>

type_synonym ('k, 'v) dict = "('k \<times> 'v) list"

datatype error =
    AttributeError | KeyError | IndexError | ValueError
  | ConfigError | PreprocessError | FitError | FileNotFound

text \<open>
  The pseudo-random generator is a state that every unseeded draw advances. A
  distribution (an external collaborator) draws \<open>n\<close> values from a generator state and
  returns the state it leaves. \<open>rvs\<close> is the call \<open>dist.rvs(n, random_state=rs)\<close>: with
  \<open>rs = None\<close> the shared generator is used and advanced; with an integer seed a fresh
  generator is made from the seed for this call alone and the shared one is untouched.
\<close>

type_synonym rng = nat

type_synonym 'v distribution = "nat \<Rightarrow> rng \<Rightarrow> 'v list \<times> rng"

definition seed_rng :: "int \<Rightarrow> rng" where
  "seed_rng s = nat (s mod 4294967296)"

definition rvs :: "'v distribution \<Rightarrow> nat \<Rightarrow> int option \<Rightarrow> rng \<Rightarrow> 'v list \<times> rng" where
  "rvs distr n rs g =
     (case rs of
        None \<Rightarrow> distr n g
      | Some s \<Rightarrow> (fst (distr n (seed_rng s)), g))"

text \<open>A concrete generator and distribution, for evaluation on concrete inputs.\<close>

definition lcg_next :: "rng \<Rightarrow> rng" where
  "lcg_next g = (g * 1103515245 + 12345) mod 2147483648"

fun lcg_draws :: "nat \<Rightarrow> nat \<Rightarrow> nat \<Rightarrow> rng \<Rightarrow> nat list \<times> rng" where
  "lcg_draws lo width 0 g = ([], g)"
| "lcg_draws lo width (Suc n) g =
     (let g1 = lcg_next g;
          (vs, g2) = lcg_draws lo width n g1
      in ((lo + g1 mod width) # vs, g2))"

definition randint :: "nat \<Rightarrow> nat \<Rightarrow> nat distribution" where
  "randint lo hi = (\<lambda>n g. lcg_draws lo (hi - lo) n g)"

section \<open>Evaluator (model\_selection.py)\<close>

type_synonym 'v params = "(string, 'v) dict"

type_synonym 'v param_sets = "(string, 'v params list) dict"

type_synonym 'v param_map = "(string \<times> nat, 'v params) dict"

record 'v result_record =
  estimator :: string
  test_score :: real
  train_score :: real
  time :: real
  param_draw :: nat
  params :: "'v params"

record stats =
  test_score_mean :: real
  test_score_std :: "real option"
  train_score_mean :: real
  train_score_std :: "real option"
  time_mean :: real
  time_std :: "real option"

text \<open>
  A row of \<open>cv_results_\<close> is the six aggregates and the \<open>params\<close> cell, under the index
  \<open>(estimator, param_draw)\<close>; a row of \<open>summary_\<close> is the same under \<open>estimator\<close> alone.
\<close>

type_synonym 'v cv_table = "(string \<times> nat, stats \<times> 'v params) dict"

type_synonym 'v summary_table = "(string, stats \<times> 'v params) dict"

text \<open>
  The object. \<open>preprocessing = None\<close> is the constructor's default. \<open>dout\<close>,
  \<open>preprocessing_\<close>, \<open>param_sets_\<close>, \<open>param_map\<close>, \<open>cv_results_\<close>, \<open>summary_\<close> and
  \<open>best_idx_\<close> are attributes that exist only once a method has set them: \<open>None\<close> is
  "the object has no such attribute". \<open>'c\<close> is what a preprocessing case holds, \<open>'e\<close> an
  estimator, \<open>'d\<close> the table of preprocessed folds. Console output (\<open>verbose\<close>) is left out.
  An attribute the source writes with a trailing underscore (\<open>estimators_\<close>) is named
  with the suffix \<open>_attr\<close> here. \<open>cv\<close> is the number of folds, the only use the
  evaluator makes of it being to pass it on. A dict is the list of its items in insertion
  order, the order in which the source iterates over it.
\<close>

record ('v, 'c, 'e, 'd) evaluator =
  cv :: nat
  shuffle :: bool
  random_state :: "int option"
  preprocessing :: "(string, 'c) dict option"
  n_iter :: nat
  estimators_attr :: "(string, 'e) dict"
  param_dicts_attr :: "(string, (string, 'v distribution) dict) dict"
  preprocessing_attr :: "(string, 'c) dict option option"
  dout :: "'d option"
  param_sets_attr :: "'v param_sets option"
  param_map :: "'v param_map option"
  cv_results_attr :: "'v cv_table option"
  summary_attr :: "'v summary_table option"
  best_idx_attr :: "(string \<times> nat) list option"

text \<open>\<open>Evaluator.__init__\<close> with its defaults for \<open>cv\<close>, \<open>shuffle\<close> and \<open>random_state\<close>.\<close>

definition Evaluator_init ::
  "(string, 'c) dict option \<Rightarrow> nat \<Rightarrow> bool \<Rightarrow> int option \<Rightarrow> ('v, 'c, 'e, 'd) evaluator" where
  "Evaluator_init prep k shuf rs =
     \<lparr> cv = k, shuffle = shuf, random_state = rs, preprocessing = prep,
       n_iter = 0, estimators_attr = [], param_dicts_attr = [],
       preprocessing_attr = None, dout = None, param_sets_attr = None, param_map = None,
       cv_results_attr = None, summary_attr = None, best_idx_attr = None \<rparr>"

subsection \<open>\<open>_draw_params\<close>\<close>

text \<open>
  The inner loop \<open>for i, draw in enumerate(draws): param_draws[i][param] = draw\<close>;
  \<open>param_draws[i]\<close> raises IndexError once \<open>i\<close> reaches the length of the list.
\<close>

fun fill_draws :: "string \<Rightarrow> (nat \<times> 'v) list \<Rightarrow> 'v params list \<Rightarrow> error + 'v params list" where
  "fill_draws param [] pd = Inr pd"
| "fill_draws param ((i, draw) # rest) pd =
     (if i < length pd
      then fill_draws param rest (pd[i := AList.update param draw (pd ! i)])
      else Inl IndexError)"

text \<open>The outer loop over \<open>param_dicts_[est_name].items()\<close>: one \<open>rvs\<close> call per item.\<close>

fun fill_params ::
  "nat \<Rightarrow> int option \<Rightarrow> (string, 'v distribution) dict \<Rightarrow> 'v params list \<Rightarrow> rng
     \<Rightarrow> (error + 'v params list) \<times> rng" where
  "fill_params n rs [] pd g = (Inr pd, g)"
| "fill_params n rs ((param, distr) # rest) pd g =
     (let (draws, g') = rvs distr n rs g
      in case fill_draws param (enumerate 0 draws) pd of
           Inl e \<Rightarrow> (Inl e, g')
         | Inr pd' \<Rightarrow> fill_params n rs rest pd' g')"

definition draw_params ::
  "('v, 'c, 'e, 'd) evaluator \<Rightarrow> string \<Rightarrow> rng \<Rightarrow> (error + 'v params list) \<times> rng" where
  "draw_params ev est_name g =
     (case map_of (param_dicts_attr ev) est_name of
        None \<Rightarrow> (Inl KeyError, g)
      | Some items \<Rightarrow>
          fill_params (n_iter ev) (random_state ev) items (replicate (n_iter ev) []) g)"

subsection \<open>\<open>_param_sets\<close>\<close>

text \<open>First loop: \<open>param_sets[est_name] = self._draw_params(est_name)\<close>.\<close>

fun draw_all ::
  "('v, 'c, 'e, 'd) evaluator \<Rightarrow> (string, 'e) dict \<Rightarrow> 'v param_sets \<Rightarrow> rng
     \<Rightarrow> (error + 'v param_sets) \<times> rng" where
  "draw_all ev [] ps g = (Inr ps, g)"
| "draw_all ev ((est_name, est) # rest) ps g =
     (case draw_params ev est_name g of
        (Inl e, g') \<Rightarrow> (Inl e, g')
      | (Inr pd, g') \<Rightarrow> draw_all ev rest (AList.update est_name pd ps) g')"

text \<open>
  Second loop, innermost first. \<open>self.preprocessing.keys()\<close> is evaluated each time the
  body of the loop over the draws is entered, and raises AttributeError on \<open>None\<close>.
\<close>

definition flatten_cases ::
  "string \<Rightarrow> nat \<Rightarrow> 'v params \<Rightarrow> string list \<Rightarrow> 'v param_map \<Rightarrow> 'v param_map" where
  "flatten_cases est_name draw ps cases pm =
     foldl (\<lambda>m c. AList.update (est_name @ ''-'' @ c, draw + 1) ps m) pm cases"

fun flatten_draws ::
  "(string, 'c) dict option \<Rightarrow> string \<Rightarrow> (nat \<times> 'v params) list \<Rightarrow> 'v param_map
     \<Rightarrow> error + 'v param_map" where
  "flatten_draws prep est_name [] pm = Inr pm"
| "flatten_draws prep est_name ((draw, ps) # rest) pm =
     (case prep of
        None \<Rightarrow> Inl AttributeError
      | Some cases \<Rightarrow>
          flatten_draws prep est_name rest (flatten_cases est_name draw ps (map fst cases) pm))"

fun flatten_ests ::
  "(string, 'c) dict option \<Rightarrow> 'v param_sets \<Rightarrow> 'v param_map \<Rightarrow> error + 'v param_map" where
  "flatten_ests prep [] pm = Inr pm"
| "flatten_ests prep ((est_name, param_draws) # rest) pm =
     (case flatten_draws prep est_name (enumerate 0 param_draws) pm of
        Inl e \<Rightarrow> Inl e
      | Inr pm' \<Rightarrow> flatten_ests prep rest pm')"

definition param_sets ::
  "('v, 'c, 'e, 'd) evaluator \<Rightarrow> rng \<Rightarrow> (error + 'v param_sets \<times> 'v param_map) \<times> rng" where
  "param_sets ev g =
     (case draw_all ev (estimators_attr ev) [] g of
        (Inl e, g') \<Rightarrow> (Inl e, g')
      | (Inr ps, g') \<Rightarrow>
          (case flatten_ests (preprocessing ev) ps [] of
             Inl e \<Rightarrow> (Inl e, g')
           | Inr pm \<Rightarrow> (Inr (ps, pm), g')))"

subsection \<open>\<open>_results\<close>\<close>

text \<open>
  The aggregation library is outside the repository; what the source asks of it is written
  out here. \<open>'mean'\<close> and \<open>'std'\<close> name two aggregation functions of the library, which
  computes them in floating point: they are parameters of the model, \<open>agg_mean\<close> and
  \<open>agg_std\<close>, applied to the values of one column of one group in the order of the
  records. A score or a time is the real number that a finite float denotes, and two of them
  compare as the floats do; not-a-number scores are not modelled. \<open>agg_std\<close> gives \<open>None\<close>
  where the library gives not-a-number (the deviation of a single record).
\<close>

record aggregators =
  agg_mean :: "real list \<Rightarrow> real"
  agg_std :: "real list \<Rightarrow> real option"

definition record_key :: "'v result_record \<Rightarrow> string \<times> nat" where
  "record_key r = (estimator r, param_draw r)"

text \<open>
  \<open>out.groupby(['estimator', 'param_draw'])\<close>: one group per key, the keys in ascending
  lexicographic order (estimator name, then draw), each group holding its records.
\<close>

definition group_keys :: "'v result_record list \<Rightarrow> (string \<times> nat) list" where
  "group_keys out = sort (remdups (map record_key out))"

definition group_rows :: "'v result_record list \<Rightarrow> string \<times> nat \<Rightarrow> 'v result_record list" where
  "group_rows out k = filter (\<lambda>r. record_key r = k) out"

text \<open>
  \<open>.agg(['mean', 'std'])\<close> and the renaming of the columns: both aggregates of each of the
  three numeric columns of a group.
\<close>

definition aggregate :: "aggregators \<Rightarrow> 'v result_record list \<Rightarrow> stats" where
  "aggregate agg rows =
     \<lparr> test_score_mean = agg_mean agg (map test_score rows),
       test_score_std = agg_std agg (map test_score rows),
       train_score_mean = agg_mean agg (map train_score rows),
       train_score_std = agg_std agg (map train_score rows),
       time_mean = agg_mean agg (map time rows),
       time_std = agg_std agg (map time rows) \<rparr>"

text \<open>
  \<open>cv_results['params'] = param_map.loc[cv_results.index]\<close>: a key of the table that
  the parameter map does not have raises KeyError.
\<close>

fun lookup_params ::
  "'v param_map \<Rightarrow> ((string \<times> nat) \<times> stats) list \<Rightarrow> error + 'v cv_table" where
  "lookup_params pm [] = Inr []"
| "lookup_params pm ((k, s) # rest) =
     (case map_of pm k of
        None \<Rightarrow> Inl KeyError
      | Some prm \<Rightarrow>
          (case lookup_params pm rest of
             Inl e \<Rightarrow> Inl e
           | Inr t \<Rightarrow> Inr ((k, (s, prm)) # t)))"

text \<open>
  In the aggregation library of the source's date, \<open>np.argmax\<close> of a series is the
  index label of its first maximum: a later row replaces the best one only when it is
  strictly greater.
\<close>

fun first_max :: "'k \<times> real \<Rightarrow> ('k \<times> real) list \<Rightarrow> 'k \<times> real" where
  "first_max b [] = b"
| "first_max b (r # rest) = first_max (if snd b < snd r then r else b) rest"

definition idxmax :: "('k \<times> real) list \<Rightarrow> 'k list" where
  "idxmax rows = (case rows of [] \<Rightarrow> [] | r # rest \<Rightarrow> [fst (first_max r rest)])"

definition test_means :: "'v cv_table \<Rightarrow> string \<Rightarrow> ((string \<times> nat) \<times> real) list" where
  "test_means cvr e =
     map (\<lambda>(k, (s, prm)). (k, test_score_mean s)) (filter (\<lambda>(k, row). fst k = e) cvr)"

definition best_index :: "'v cv_table \<Rightarrow> (string \<times> nat) list" where
  "best_index cvr =
     concat (map (\<lambda>e. idxmax (test_means cvr e)) (sort (remdups (map (fst \<circ> fst) cvr))))"

definition loc_rows :: "'v cv_table \<Rightarrow> (string \<times> nat) list \<Rightarrow> 'v summary_table" where
  "loc_rows cvr idx =
     concat (map (\<lambda>k. map (\<lambda>(k', row). (fst k', row)) (filter (\<lambda>(k', row). k' = k) cvr)) idx)"

text \<open>
  \<open>sort_values(by='test_score_mean', ascending=False)\<close>. The order the library leaves
  rows of equal score in is not fixed by the source; here they keep their order.
\<close>

definition sort_values_desc :: "'v summary_table \<Rightarrow> 'v summary_table" where
  "sort_values_desc t = sort_key (\<lambda>(e, (s, prm)). - test_score_mean s) t"

text \<open>
  Line 277 names the two index levels of \<open>Series(param_map)\<close>; the series of an empty
  dictionary has a one-level index and the assignment raises ValueError.
\<close>

definition results ::
  "aggregators \<Rightarrow> 'v result_record list \<Rightarrow> 'v param_map
     \<Rightarrow> error + 'v cv_table \<times> 'v summary_table \<times> (string \<times> nat) list" where
  "results agg out pm =
     (if pm = [] then Inl ValueError
      else case lookup_params pm (map (\<lambda>k. (k, aggregate agg (group_rows out k))) (group_keys out)) of
        Inl e \<Rightarrow> Inl e
      | Inr cvr \<Rightarrow>
          (let best_idx = best_index cvr;
               summary = sort_values_desc (loc_rows cvr best_idx)
           in Inr (cvr, summary, best_idx)))"

subsection \<open>\<open>preprocess\<close> and \<open>evaluate\<close>\<close>

text \<open>
  \<open>preprocess_folds\<close> and \<open>cross_validate\<close> live in \<open>mlens.parallel\<close>, outside these
  sources: the two methods take them as parameters \<open>pf\<close> and \<open>cvf\<close>, either of which may
  raise. \<open>pf\<close> receives the cases, the data, \<open>cv\<close>, \<open>shuffle\<close>, \<open>random_state\<close> and the
  shared generator; \<open>cvf\<close> receives the estimators, the parameter sets and the fold table.
  The aggregation functions of the library are the parameter \<open>agg\<close>.
  \<open>clone_preprocess_cases\<close> copies the cases, which for values is the identity. The
  world outside the object is the shared generator and the trace of calls made to the two
  collaborators. A method returns the exception it raised, if any, with the object and the
  world as they were left.
\<close>

type_synonym matrix = "real list list"

datatype 'd event = PreprocessFolds | CrossValidate 'd

record 'd world =
  gen :: rng
  trace :: "'d event list"

type_synonym ('c, 'd) preprocess_folds =
  "(string, 'c) dict option \<Rightarrow> matrix \<Rightarrow> real list \<Rightarrow> nat \<Rightarrow> bool \<Rightarrow> int option \<Rightarrow> rng
     \<Rightarrow> (error + 'd) \<times> rng"

type_synonym ('v, 'e, 'd) cross_validate =
  "(string, 'e) dict \<Rightarrow> 'v param_sets \<Rightarrow> 'd \<Rightarrow> error + 'v result_record list"

definition preprocess ::
  "('c, 'd) preprocess_folds \<Rightarrow> matrix \<Rightarrow> real list \<Rightarrow> ('v, 'c, 'e, 'd) evaluator \<Rightarrow> 'd world
     \<Rightarrow> error option \<times> ('v, 'c, 'e, 'd) evaluator \<times> 'd world" where
  "preprocess pf X y ev w =
     (let ev1 = ev\<lparr>preprocessing_attr := Some (preprocessing ev)\<rparr>;
          w1 = w\<lparr>trace := trace w @ [PreprocessFolds]\<rparr>
      in case pf (preprocessing ev) X y (cv ev) (shuffle ev) (random_state ev) (gen w) of
           (Inl e, g') \<Rightarrow> (Some e, ev1, w1\<lparr>gen := g'\<rparr>)
         | (Inr d, g') \<Rightarrow> (None, ev1\<lparr>dout := Some d\<rparr>, w1\<lparr>gen := g'\<rparr>))"

text \<open>
  The part of \<open>evaluate\<close> from the parameter draws on. \<open>self.dout\<close> is read when
  \<open>cross_validate\<close> is called; \<open>del self.dout\<close> is reached only when nothing raised.
\<close>

definition evaluate_run ::
  "('v, 'e, 'd) cross_validate \<Rightarrow> aggregators \<Rightarrow> bool \<Rightarrow> ('v, 'c, 'e, 'd) evaluator \<Rightarrow> 'd world
     \<Rightarrow> error option \<times> ('v, 'c, 'e, 'd) evaluator \<times> 'd world" where
  "evaluate_run cvf agg flush_preprocess ev w =
     (case param_sets ev (gen w) of
        (Inl e, g') \<Rightarrow> (Some e, ev, w\<lparr>gen := g'\<rparr>)
      | (Inr (ps, pm), g') \<Rightarrow>
          (let ev1 = ev\<lparr>param_sets_attr := Some ps, param_map := Some pm\<rparr>;
               w1 = w\<lparr>gen := g'\<rparr>
           in case dout ev1 of
                None \<Rightarrow> (Some AttributeError, ev1, w1)
              | Some d \<Rightarrow>
                  (let w2 = w1\<lparr>trace := trace w1 @ [CrossValidate d]\<rparr>
                   in case cvf (estimators_attr ev1) ps d of
                        Inl e \<Rightarrow> (Some e, ev1, w2)
                      | Inr out \<Rightarrow>
                          (case results agg out pm of
                             Inl e \<Rightarrow> (Some e, ev1, w2)
                           | Inr (cvr, summary, best_idx) \<Rightarrow>
                               (let ev2 = ev1\<lparr>cv_results_attr := Some cvr,
                                              summary_attr := Some summary,
                                              best_idx_attr := Some best_idx\<rparr>
                                in (None,
                                    if flush_preprocess then ev2\<lparr>dout := None\<rparr> else ev2,
                                    w2))))))"

definition evaluate ::
  "('c, 'd) preprocess_folds \<Rightarrow> ('v, 'e, 'd) cross_validate \<Rightarrow> aggregators \<Rightarrow> matrix \<Rightarrow> real list
     \<Rightarrow> (string, 'e) dict \<Rightarrow> (string, (string, 'v distribution) dict) dict \<Rightarrow> nat
     \<Rightarrow> bool \<Rightarrow> bool \<Rightarrow> ('v, 'c, 'e, 'd) evaluator \<Rightarrow> 'd world
     \<Rightarrow> error option \<times> ('v, 'c, 'e, 'd) evaluator \<times> 'd world" where
  "evaluate pf cvf agg X y estimators param_dicts n reset_preprocess flush_preprocess ev w =
     (let ev1 = ev\<lparr>n_iter := n, estimators_attr := estimators, param_dicts_attr := param_dicts\<rparr>
      in if dout ev1 = None \<or> reset_preprocess
         then (case preprocess pf X y ev1 w of
                 (Some e, ev2, w2) \<Rightarrow> (Some e, ev2, w2)
               | (None, ev2, w2) \<Rightarrow> evaluate_run cvf agg flush_preprocess ev2 w2)
         else evaluate_run cvf agg flush_preprocess ev1 w)"

section \<open>Fold indexing and fold preprocessing\<close>

text \<open>
  Modelled from the spec: the sizes of the test blocks of \<open>FoldIndexer.build\<close> (the
  indexers \<open>BlendIndex\<close> and \<open>KFold\<close> are not in these sources). Section 3 lets the
  sizes of \<open>k\<close> folds over \<open>n\<close> samples differ by at most one.
\<close>

definition fold_sizes :: "nat \<Rightarrow> nat \<Rightarrow> nat list" where
  "fold_sizes n k = map (\<lambda>i. n div k + (if i < n mod k then 1 else 0)) [0..<k]"

text \<open>Modelled from the spec: cutting the index list into consecutive test blocks.\<close>

fun chunks :: "nat list \<Rightarrow> 'a list \<Rightarrow> 'a list list" where
  "chunks [] xs = []"
| "chunks (n # ns) xs = take n xs # chunks ns (drop n xs)"

text \<open>
  Modelled from the spec: the permutation of the indices "using the supplied seed"
  (section 4.1), by repeatedly drawing the position of the next index from the generator.
\<close>

fun shuffle_pick :: "nat \<Rightarrow> rng \<Rightarrow> nat list \<Rightarrow> nat list \<times> rng" where
  "shuffle_pick 0 g xs = ([], g)"
| "shuffle_pick (Suc m) g xs =
     (if xs = [] then ([], g)
      else (let g1 = lcg_next g;
                j = g1 mod length xs;
                (rest, g2) = shuffle_pick m g1 (take j xs @ drop (Suc j) xs)
            in (xs ! j # rest, g2)))"

text \<open>
  Modelled from the spec: a seeded shuffle uses a generator of its own made from the seed,
  an unseeded one the shared generator.
\<close>

definition permute :: "int option \<Rightarrow> rng \<Rightarrow> nat list \<Rightarrow> nat list \<times> rng" where
  "permute rs g xs =
     (case rs of
        None \<Rightarrow> shuffle_pick (length xs) g xs
      | Some s \<Rightarrow> (fst (shuffle_pick (length xs) (seed_rng s) xs), g))"

text \<open>
  Modelled from the spec: one fold of \<open>FoldIndexer.partition\<close> (section 4.1), a pair of
  disjoint train and test row positions.
\<close>

record fold =
  train_rows :: "nat list"
  test_rows :: "nat list"

text \<open>
  Modelled from the spec: the fold plan over an index list. The train partition of a fold
  is every index that is not in its test block (section 3).
\<close>

definition fold_plan :: "nat list \<Rightarrow> nat \<Rightarrow> fold list" where
  "fold_plan idx k =
     map (\<lambda>t. \<lparr>train_rows = filter (\<lambda>i. i \<notin> set t) idx, test_rows = t\<rparr>)
       (chunks (fold_sizes (length idx) k) idx)"

text \<open>
  Modelled from the spec: \<open>FoldIndexer.build\<close> (section 4.1), which fails with ConfigError
  when \<open>k < 2\<close> or \<open>k > sample_count\<close> and permutes the indices first when asked to shuffle.
\<close>

definition build :: "nat \<Rightarrow> nat \<Rightarrow> bool \<Rightarrow> int option \<Rightarrow> rng \<Rightarrow> (error + fold list) \<times> rng" where
  "build n k shuf rs g =
     (if k < 2 \<or> n < k then (Inl ConfigError, g)
      else if shuf
        then (let (idx, g') = permute rs g [0..<n] in (Inr (fold_plan idx k), g'))
        else (Inr (fold_plan [0..<n] k), g))"

text \<open>
  Modelled from the spec: a transform step (section 6) is fitted on data and the fitted
  step is applied to data; either may raise (\<open>None\<close>). A chain is fitted step by step, each
  step on the output of the steps before it.
\<close>

type_synonym fitted_step = "matrix \<Rightarrow> matrix option"

type_synonym step = "matrix \<Rightarrow> fitted_step option"

fun apply_chain :: "fitted_step list \<Rightarrow> matrix \<Rightarrow> matrix option" where
  "apply_chain [] X = Some X"
| "apply_chain (f # fs) X = (case f X of None \<Rightarrow> None | Some X' \<Rightarrow> apply_chain fs X')"

fun fit_chain :: "step list \<Rightarrow> matrix \<Rightarrow> fitted_step list option" where
  "fit_chain [] X = Some []"
| "fit_chain (s # ss) X =
     (case s X of
        None \<Rightarrow> None
      | Some f \<Rightarrow>
          (case f X of
             None \<Rightarrow> None
           | Some X' \<Rightarrow>
               (case fit_chain ss X' of None \<Rightarrow> None | Some fs \<Rightarrow> Some (f # fs))))"

text \<open>Modelled from the spec: the no-op step of the scenario of section 8.\<close>

definition noop_step :: step where
  "noop_step = (\<lambda>X. Some (\<lambda>Z. Some Z))"

text \<open>Modelled from the spec: the rows of a partition, in the order of its positions.\<close>

definition rows_at :: "'a list \<Rightarrow> nat list \<Rightarrow> 'a list" where
  "rows_at xs idx = map (\<lambda>i. xs ! i) idx"

text \<open>
  Modelled from the spec: what \<open>ParallelFoldPreprocessor.run\<close> stores for one (case, fold)
  unit (section 4.2): the transformed train and test partitions, their labels, and the test
  row positions.
\<close>

record fold_data =
  train_in :: matrix
  train_out :: "real list"
  test_in :: matrix
  test_out :: "real list"
  test_row_positions :: "nat list"

type_synonym fold_table = "(string \<times> nat, fold_data) dict"

text \<open>
  Modelled from the spec: one unit of \<open>ParallelFoldPreprocessor.run\<close> (section 4.2): fit
  the chain of the case on the train partition of the fold, apply it to both partitions.
\<close>

definition preprocess_fold :: "step list \<Rightarrow> matrix \<Rightarrow> real list \<Rightarrow> fold \<Rightarrow> error + fold_data" where
  "preprocess_fold steps X y f =
     (let Xtr = rows_at X (train_rows f); Xte = rows_at X (test_rows f)
      in case fit_chain steps Xtr of
           None \<Rightarrow> Inl PreprocessError
         | Some chain \<Rightarrow>
             (case apply_chain chain Xtr of
                None \<Rightarrow> Inl PreprocessError
              | Some A \<Rightarrow>
                  (case apply_chain chain Xte of
                     None \<Rightarrow> Inl PreprocessError
                   | Some B \<Rightarrow>
                       Inr \<lparr> train_in = A, train_out = rows_at y (train_rows f),
                             test_in = B, test_out = rows_at y (test_rows f),
                             test_row_positions = test_rows f \<rparr>)))"

text \<open>Modelled from the spec: the folds of one case, keyed by (case, fold index).\<close>

fun run_folds ::
  "string \<Rightarrow> step list \<Rightarrow> matrix \<Rightarrow> real list \<Rightarrow> (nat \<times> fold) list \<Rightarrow> error + fold_table" where
  "run_folds c steps X y [] = Inr []"
| "run_folds c steps X y ((i, f) # rest) =
     (case preprocess_fold steps X y f of
        Inl e \<Rightarrow> Inl e
      | Inr fd \<Rightarrow>
          (case run_folds c steps X y rest of
             Inl e \<Rightarrow> Inl e
           | Inr t \<Rightarrow> Inr (((c, i), fd) # t)))"

text \<open>
  Modelled from the spec: \<open>ParallelFoldPreprocessor.run\<close> with \<open>fit=true\<close>, every case
  over every fold; a failing step aborts the run with PreprocessError.
\<close>

fun run :: "(string, step list) dict \<Rightarrow> matrix \<Rightarrow> real list \<Rightarrow> fold list \<Rightarrow> error + fold_table" where
  "run [] X y folds = Inr []"
| "run ((c, steps) # cases) X y folds =
     (case run_folds c steps X y (enumerate 0 folds) of
        Inl e \<Rightarrow> Inl e
      | Inr t \<Rightarrow>
          (case run cases X y folds of
             Inl e \<Rightarrow> Inl e
           | Inr t' \<Rightarrow> Inr (t @ t')))"

text \<open>
  Modelled from the spec: \<open>preprocess_folds\<close> as the evaluator calls it (\<open>mlens.parallel\<close>
  is not in these sources): the fold plan of section 4.1 followed by the run of section
  4.2. Data whose labels do not match its rows is refused; no cases give an empty table.
\<close>

definition preprocess_folds :: "(step list, fold_table) preprocess_folds" where
  "preprocess_folds cases X y k shuf rs g =
     (if length y \<noteq> length X then (Inl ValueError, g)
      else case build (length X) k shuf rs g of
             (Inl e, g') \<Rightarrow> (Inl e, g')
           | (Inr folds, g') \<Rightarrow>
               (run (case cases of None \<Rightarrow> [] | Some cs \<Rightarrow> cs) X y folds, g'))"

section \<open>Layer and LayerContainer\<close>

text \<open>
  Modelled from the spec: the estimator capability (section 6; \<open>Layer\<close>,
  \<open>LayerContainer\<close> and the estimators of the tests are not in these sources). Fitting
  gives a fitted instance or raises (\<open>None\<close>); a fitted instance predicts one value for a
  row. The estimator itself holds no fitted state, so a clone of it is the estimator.
\<close>

record 'm estimator =
  est_fit :: "matrix \<Rightarrow> real list \<Rightarrow> 'm option"
  est_predict :: "'m \<Rightarrow> real list \<Rightarrow> real"

text \<open>
  Modelled from the spec: a Layer (section 4.3) owns its fold count, its preprocessing
  cases and its (case, estimator) pairs in column order.
\<close>

record 'm layer =
  layer_folds :: nat
  layer_cases :: "(string, step list) dict"
  layer_pairs :: "(string \<times> string, 'm estimator) dict"

text \<open>
  Modelled from the spec: the state a fit leaves: the instances fitted per fold for each
  pair, and the production chain of each case and production instance of each pair.
\<close>

record 'm layer_state =
  fitted_folds :: "(string \<times> string, 'm list) dict"
  production_chain :: "(string, fitted_step list) dict"
  production_model :: "(string \<times> string, 'm) dict"

text \<open>Modelled from the spec: the prediction matrix before any prediction is written.\<close>

definition zeros :: "nat \<Rightarrow> nat \<Rightarrow> matrix" where
  "zeros n m = replicate n (replicate m 0)"

text \<open>
  Modelled from the spec: scattering the predictions of one pair into its column at the
  row positions of the test partition.
\<close>

fun scatter_col :: "nat \<Rightarrow> nat list \<Rightarrow> real list \<Rightarrow> matrix \<Rightarrow> matrix" where
  "scatter_col j (p # ps) (v # vs) P =
     scatter_col j ps vs (if p < length P then P[p := (P ! p)[j := v]] else P)"
| "scatter_col j ps vs P = P"

text \<open>
  Modelled from the spec: the folds of one pair. For each fold the estimator is fitted on
  the preprocessed train partition, predicts the preprocessed test partition and the
  predictions are scattered; a fit that raises is surfaced as FitError.
\<close>

fun fit_pair_folds ::
  "fold_table \<Rightarrow> string \<Rightarrow> 'm estimator \<Rightarrow> nat \<Rightarrow> nat list \<Rightarrow> matrix
     \<Rightarrow> error + matrix \<times> 'm list" where
  "fit_pair_folds t c est j [] P = Inr (P, [])"
| "fit_pair_folds t c est j (f # fs) P =
     (case map_of t (c, f) of
        None \<Rightarrow> Inl KeyError
      | Some fd \<Rightarrow>
          (case est_fit est (train_in fd) (train_out fd) of
             None \<Rightarrow> Inl FitError
           | Some m \<Rightarrow>
               (case fit_pair_folds t c est j fs
                       (scatter_col j (test_row_positions fd) (map (est_predict est m) (test_in fd)) P) of
                  Inl e \<Rightarrow> Inl e
                | Inr (P', ms) \<Rightarrow> Inr (P', m # ms))))"

text \<open>Modelled from the spec: every pair of the layer, column by column.\<close>

fun fit_pairs ::
  "fold_table \<Rightarrow> nat \<Rightarrow> (nat \<times> (string \<times> string) \<times> 'm estimator) list \<Rightarrow> matrix
     \<Rightarrow> error + matrix \<times> (string \<times> string, 'm list) dict" where
  "fit_pairs t k [] P = Inr (P, [])"
| "fit_pairs t k ((j, (c, e), est) # rest) P =
     (case fit_pair_folds t c est j [0..<k] P of
        Inl err \<Rightarrow> Inl err
      | Inr (P', ms) \<Rightarrow>
          (case fit_pairs t k rest P' of
             Inl err \<Rightarrow> Inl err
           | Inr (P'', fitted) \<Rightarrow> Inr (P'', ((c, e), ms) # fitted)))"

text \<open>
  Modelled from the spec: the production chain of each case, fitted on the entire data.
\<close>

fun fit_production_chains ::
  "(string, step list) dict \<Rightarrow> matrix \<Rightarrow> error + (string, fitted_step list) dict" where
  "fit_production_chains [] X = Inr []"
| "fit_production_chains ((c, steps) # cases) X =
     (case fit_chain steps X of
        None \<Rightarrow> Inl PreprocessError
      | Some chain \<Rightarrow>
          (case fit_production_chains cases X of
             Inl e \<Rightarrow> Inl e
           | Inr pchains \<Rightarrow> Inr ((c, chain) # pchains)))"

text \<open>
  Modelled from the spec: the production instance of each pair, fitted on the entire
  data preprocessed under the case of the pair.
\<close>

fun fit_production_models ::
  "(string, fitted_step list) dict \<Rightarrow> (string \<times> string, 'm estimator) dict \<Rightarrow> matrix \<Rightarrow> real list
     \<Rightarrow> error + (string \<times> string, 'm) dict" where
  "fit_production_models pchains [] X y = Inr []"
| "fit_production_models pchains (((c, e), est) # rest) X y =
     (case map_of pchains c of
        None \<Rightarrow> Inl KeyError
      | Some chain \<Rightarrow>
          (case apply_chain chain X of
             None \<Rightarrow> Inl PreprocessError
           | Some Z \<Rightarrow>
               (case est_fit est Z y of
                  None \<Rightarrow> Inl FitError
                | Some m \<Rightarrow>
                    (case fit_production_models pchains rest X y of
                       Inl err \<Rightarrow> Inl err
                     | Inr models \<Rightarrow> Inr (((c, e), m) # models)))))"

text \<open>
  Modelled from the spec: \<open>Layer.fit\<close> (section 4.3): the unshuffled fold plan, the fold
  table, the out-of-fold matrix of every pair over every fold, then the production
  instances.
\<close>

definition layer_fit :: "'m layer \<Rightarrow> matrix \<Rightarrow> real list \<Rightarrow> error + matrix \<times> 'm layer_state" where
  "layer_fit L X y =
     (if length y \<noteq> length X then Inl ValueError
      else if layer_folds L < 2 \<or> length X < layer_folds L then Inl ConfigError
      else case run (layer_cases L) X y (fold_plan [0..<length X] (layer_folds L)) of
        Inl e \<Rightarrow> Inl e
      | Inr t \<Rightarrow>
          (case fit_pairs t (layer_folds L) (enumerate 0 (layer_pairs L))
                  (zeros (length X) (length (layer_pairs L))) of
             Inl e \<Rightarrow> Inl e
           | Inr (P, fitted) \<Rightarrow>
               (case fit_production_chains (layer_cases L) X of
                  Inl e \<Rightarrow> Inl e
                | Inr pchains \<Rightarrow>
                    (case fit_production_models pchains (layer_pairs L) X y of
                       Inl e \<Rightarrow> Inl e
                     | Inr models \<Rightarrow>
                         Inr (P, \<lparr> fitted_folds = fitted, production_chain = pchains,
                                   production_model = models \<rparr>)))))"

text \<open>
  Modelled from the spec: one column of \<open>Layer.predict\<close>: the production chain of the
  case of the pair applied to the input, then the production instance of the pair.
\<close>

definition predict_col ::
  "'m layer_state \<Rightarrow> string \<Rightarrow> string \<Rightarrow> 'm estimator \<Rightarrow> matrix \<Rightarrow> error + real list" where
  "predict_col st c e est X =
     (case map_of (production_chain st) c of
        None \<Rightarrow> Inl KeyError
      | Some chain \<Rightarrow>
          (case map_of (production_model st) (c, e) of
             None \<Rightarrow> Inl KeyError
           | Some m \<Rightarrow>
               (case apply_chain chain X of
                  None \<Rightarrow> Inl PreprocessError
                | Some Z \<Rightarrow> Inr (map (est_predict est m) Z))))"

text \<open>
  Modelled from the spec: the columns of every pair, assembled in the order of the pairs.
\<close>

fun predict_pairs ::
  "'m layer_state \<Rightarrow> (nat \<times> (string \<times> string) \<times> 'm estimator) list \<Rightarrow> matrix \<Rightarrow> matrix
     \<Rightarrow> error + matrix" where
  "predict_pairs st [] X P = Inr P"
| "predict_pairs st ((j, (c, e), est) # rest) X P =
     (case predict_col st c e est X of
        Inl err \<Rightarrow> Inl err
      | Inr col \<Rightarrow> predict_pairs st rest X (scatter_col j [0..<length X] col P))"

text \<open>Modelled from the spec: \<open>Layer.predict\<close> (section 4.3).\<close>

definition layer_predict :: "'m layer \<Rightarrow> 'm layer_state \<Rightarrow> matrix \<Rightarrow> error + matrix" where
  "layer_predict L st X =
     predict_pairs st (enumerate 0 (layer_pairs L)) X (zeros (length X) (length (layer_pairs L)))"

text \<open>
  Modelled from the spec: \<open>LayerContainer.fit\<close> (section 4.4): the matrix of a layer is the
  input of the next, the matrix of the last layer is returned with the state of every layer.
\<close>

fun container_fit ::
  "'m layer list \<Rightarrow> matrix \<Rightarrow> real list \<Rightarrow> error + matrix \<times> 'm layer_state list" where
  "container_fit [] X y = Inr (X, [])"
| "container_fit (L # Ls) X y =
     (case layer_fit L X y of
        Inl e \<Rightarrow> Inl e
      | Inr (P, st) \<Rightarrow>
          (case container_fit Ls P y of
             Inl e \<Rightarrow> Inl e
           | Inr (Q, sts) \<Rightarrow> Inr (Q, st # sts)))"

text \<open>Modelled from the spec: \<open>LayerContainer.predict\<close>, the same chaining without folds.\<close>

fun container_predict :: "'m layer list \<Rightarrow> 'm layer_state list \<Rightarrow> matrix \<Rightarrow> error + matrix" where
  "container_predict (L # Ls) (st # sts) X =
     (case layer_predict L st X of
        Inl e \<Rightarrow> Inl e
      | Inr P \<Rightarrow> container_predict Ls sts P)"
| "container_predict Ls sts X = Inr X"







text \<open>
  Modelled from the spec: the reference of section 8 for a fit, "manually fitting on each
  fold's train data and predicting its test data": fold after fold, the rows of the test
  partition, each with one prediction per estimator from the instance fitted on the train
  partition of that fold; a cell is \<open>None\<close> when that fit raises. The data is the raw
  data (the case of the scenario is a no-op).
\<close>

definition ground_truth_fit ::
  "'m estimator list \<Rightarrow> fold list \<Rightarrow> matrix \<Rightarrow> real list \<Rightarrow> real option list list" where
  "ground_truth_fit ests folds X y =
     concat (map (\<lambda>f.
         map (\<lambda>i.
           map (\<lambda>est.
             map_option (\<lambda>m. est_predict est m (X ! i))
               (est_fit est (rows_at X (train_rows f)) (rows_at y (train_rows f))))
             ests)
           (test_rows f))
         folds)"

text \<open>
  Modelled from the spec: the reference for a prediction, computed from the layer's cases
  and pairs and the training data alone: row by row of the input, one cell per pair in the
  order of the pairs; the cell is the prediction, for that row of the input transformed by
  the chain fitted on the entire training data, of the estimator fitted on the entire
  transformed training data. A cell is \<open>None\<close> when one of these steps raises.
\<close>

definition ground_truth_predict ::
  "(string, step list) dict \<Rightarrow> (string \<times> string, 'm estimator) dict \<Rightarrow> matrix \<Rightarrow> real list
     \<Rightarrow> matrix \<Rightarrow> real option list list" where
  "ground_truth_predict cases pairs X y X' =
     map (\<lambda>i.
       map (\<lambda>((c, e), est).
         Option.bind (map_of cases c) (\<lambda>steps.
         Option.bind (fit_chain steps X) (\<lambda>chain.
         Option.bind (apply_chain chain X) (\<lambda>Z.
         Option.bind (est_fit est Z y) (\<lambda>m.
         map_option (\<lambda>Z'. est_predict est m (Z' ! i)) (apply_chain chain X'))))))
         pairs)
       [0..<length X']"

text \<open>
  Modelled from the spec: the layer of the scenario of section 8: three folds, one case
  with a no-op step, two estimators.
\<close>

definition scenario_layer :: "'m estimator \<Rightarrow> 'm estimator \<Rightarrow> 'm layer" where
  "scenario_layer e1 e2 =
     \<lparr> layer_folds = 3, layer_cases = [(''no'', [noop_step])],
       layer_pairs = [((''no'', ''est-1''), e1), ((''no'', ''est-2''), e2)] \<rparr>"

section \<open>Predicates of the statements\<close>

text \<open>
  A distribution honours the draw count when a call for \<open>n\<close> values returns \<open>n\<close> values
  (section 6: "sample(n, seed) -> sequence of n values"). A parameter dictionary is well
  formed when its hyperparameter names are distinct, as the keys of a dictionary are, and
  its distributions honour the draw count.
\<close>

definition wf_dist :: "nat \<Rightarrow> 'v distribution \<Rightarrow> bool" where
  "wf_dist n d = (\<forall>g. length (fst (d n g)) = n)"

definition wf_param_dict :: "nat \<Rightarrow> (string, 'v distribution) dict \<Rightarrow> bool" where
  "wf_param_dict n items \<longleftrightarrow> distinct (map fst items) \<and> (\<forall>(p, d) \<in> set items. wf_dist n d)"

text \<open>
  The draws of one estimator are aligned with its parameter dictionary \<open>items\<close> when there
  are \<open>n\<close> dictionaries, each has exactly the declared hyperparameters as its keys, and
  for every hyperparameter one single call of its distribution gave the value of every
  draw: dictionary \<open>i\<close> holds element \<open>i\<close> of the sequence that call returned.
\<close>

definition aligned_draws ::
  "nat \<Rightarrow> int option \<Rightarrow> (string, 'v distribution) dict \<Rightarrow> 'v params list \<Rightarrow> bool" where
  "aligned_draws n rs items pd \<longleftrightarrow>
     length pd = n \<and>
     (\<forall>i<n. fst ` set (pd ! i) = fst ` set items \<and> distinct (map fst (pd ! i))) \<and>
     (\<forall>(p, d) \<in> set items. \<exists>g0. \<forall>i<n. map_of (pd ! i) p = Some (fst (rvs d n rs g0) ! i))"

text \<open>What the loop of \<open>_draw_params\<close> has done to the dictionaries it started from.\<close>

definition fill_post ::
  "nat \<Rightarrow> int option \<Rightarrow> (string, 'v distribution) dict \<Rightarrow> 'v params list \<Rightarrow> 'v params list
     \<Rightarrow> bool" where
  "fill_post n rs items pd pd' \<longleftrightarrow> length pd' = n \<and>
     (\<forall>i<n. fst ` set (pd' ! i) = fst ` set (pd ! i) \<union> fst ` set items) \<and>
     (\<forall>i<n. distinct (map fst (pd ! i)) \<longrightarrow> distinct (map fst (pd' ! i))) \<and>
     (\<forall>q. q \<notin> fst ` set items \<longrightarrow> (\<forall>i<n. map_of (pd' ! i) q = map_of (pd ! i) q)) \<and>
     (\<forall>(p, d) \<in> set items. \<exists>g0. \<forall>i<n. map_of (pd' ! i) p = Some (fst (rvs d n rs g0) ! i))"

text \<open>What the first loop of \<open>_param_sets\<close> has done to the dictionary it started from.\<close>

definition draws_post ::
  "('v, 'c, 'e, 'd) evaluator \<Rightarrow> string set \<Rightarrow> 'v param_sets \<Rightarrow> 'v param_sets \<Rightarrow> bool" where
  "draws_post ev names ps ps' \<longleftrightarrow>
     fst ` set ps' = fst ` set ps \<union> names \<and>
     (distinct (map fst ps) \<longrightarrow> distinct (map fst ps')) \<and>
     (\<forall>e. e \<notin> names \<longrightarrow> map_of ps' e = map_of ps e) \<and>
     (\<forall>e \<in> names. \<exists>pd items. map_of ps' e = Some pd \<and>
         map_of (param_dicts_attr ev) e = Some items \<and>
         aligned_draws (n_iter ev) (random_state ev) items pd)"


text \<open>An evaluator with two cases, two estimators and three draws, for concrete runs.\<close>

definition demo_evaluator :: "int option \<Rightarrow> (nat, unit, unit, unit) evaluator" where
  "demo_evaluator rs =
     (Evaluator_init (Some [(''sc'', ()), (''no'', ())]) 2 True rs)
       \<lparr> n_iter := 3,
         estimators_attr := [(''ols'', ()), (''knn'', ())],
         param_dicts_attr := [(''ols'', [(''alpha'', randint 0 10), (''beta'', randint 0 10)]),
                              (''knn'', [(''k'', randint 0 10)])] \<rparr>"

text \<open>What a method call leaves behind apart from the world: the exception and the object.\<close>

definition outcome :: "error option \<times> 'a \<times> 'b \<Rightarrow> error option \<times> 'a" where
  "outcome r = (fst r, fst (snd r))"

text \<open>Two evaluators agree on everything the draws and the fold plan are made from.\<close>

definition same_config :: "('v, 'c, 'e, 'd) evaluator \<Rightarrow> ('v, 'c, 'e, 'd) evaluator \<Rightarrow> bool" where
  "same_config e e0 \<longleftrightarrow>
     cv e = cv e0 \<and> shuffle e = shuffle e0 \<and> random_state e = random_state e0 \<and>
     preprocessing e = preprocessing e0 \<and> n_iter e = n_iter e0 \<and>
     estimators_attr e = estimators_attr e0 \<and> param_dicts_attr e = param_dicts_attr e0"

section \<open>Concrete runs\<close>

text \<open>A stand-in for \<open>preprocess_folds\<close> that returns a fold table and leaves the generator alone.\<close>

definition folds_stub :: "('c, unit) preprocess_folds" where
  "folds_stub cases X y k shuf rs g = (Inr (), g)"

text \<open>A result record of an estimator-case, a test score and a draw.\<close>

definition mk_record :: "string \<Rightarrow> real \<Rightarrow> nat \<Rightarrow> nat result_record" where
  "mk_record e s d =
     \<lparr>estimator = e, test_score = s, train_score = s + 1, time = 1, param_draw = d, params = []\<rparr>"

text \<open>Eight records: two estimator-cases, two draws each, two folds each, in no order.\<close>

definition demo_records :: "nat result_record list" where
  "demo_records =
     [mk_record ''ols-sc'' 2 2, mk_record ''knn-sc'' 4 1, mk_record ''ols-sc'' 1 1,
      mk_record ''knn-sc'' 0 2, mk_record ''ols-sc'' 2 2, mk_record ''knn-sc'' 2 1,
      mk_record ''ols-sc'' 3 1, mk_record ''knn-sc'' 1 2]"

text \<open>A stand-in for \<open>cross_validate\<close> that returns the eight records.\<close>

definition cv_stub :: "(nat, 'e, 'd) cross_validate" where
  "cv_stub ests ps d = Inr demo_records"

text \<open>A stand-in for \<open>cross_validate\<close> that has nothing to fit and returns no record.\<close>

definition cv_none :: "(nat, 'e, 'd) cross_validate" where
  "cv_none ests ps d = Inr []"

text \<open>
  Mean and sample standard deviation in exact arithmetic: one instance of the aggregation
  functions, for concrete runs.
\<close>

definition exact_mean :: "real list \<Rightarrow> real" where
  "exact_mean xs = sum_list xs / real (length xs)"

definition sample_std :: "real list \<Rightarrow> real option" where
  "sample_std xs =
     (if length xs < 2 then None
      else Some (sqrt (sum_list (map (\<lambda>x. (x - exact_mean xs)\<^sup>2) xs) / real (length xs - 1))))"

definition exact_aggs :: aggregators where
  "exact_aggs = \<lparr> agg_mean = exact_mean, agg_std = sample_std \<rparr>"

text \<open>A world with no call made yet.\<close>

definition world0 :: "unit world" where
  "world0 = \<lparr>gen = 7, trace = []\<rparr>"

text \<open>The parameter sets of the demonstration evaluator under \<open>random_state = 0\<close>.\<close>

definition demo_ps :: "nat param_sets" where
  "demo_ps =
     [(''ols'', [[(''alpha'', 5), (''beta'', 5)], [(''alpha'', 6), (''beta'', 6)],
                 [(''alpha'', 5), (''beta'', 5)]]),
      (''knn'', [[(''k'', 5)], [(''k'', 6)], [(''k'', 5)]])]"

text \<open>The parameter map of the demonstration evaluator under \<open>random_state = 0\<close>.\<close>

definition demo_pm :: "nat param_map" where
  "demo_pm =
     [((''ols-sc'', 1), [(''alpha'', 5), (''beta'', 5)]),
      ((''ols-no'', 1), [(''alpha'', 5), (''beta'', 5)]),
      ((''ols-sc'', 2), [(''alpha'', 6), (''beta'', 6)]),
      ((''ols-no'', 2), [(''alpha'', 6), (''beta'', 6)]),
      ((''ols-sc'', 3), [(''alpha'', 5), (''beta'', 5)]),
      ((''ols-no'', 3), [(''alpha'', 5), (''beta'', 5)]),
      ((''knn-sc'', 1), [(''k'', 5)]),
      ((''knn-no'', 1), [(''k'', 5)]),
      ((''knn-sc'', 2), [(''k'', 6)]),
      ((''knn-no'', 2), [(''k'', 6)]),
      ((''knn-sc'', 3), [(''k'', 5)]),
      ((''knn-no'', 3), [(''k'', 5)])]"

text \<open>The demonstration evaluator with a fold table already cached.\<close>

definition cached_evaluator :: "(nat, unit, unit, unit) evaluator" where
  "cached_evaluator = (demo_evaluator (Some 0))\<lparr>dout := Some ()\<rparr>"

text \<open>An evaluator over one no-op case, three shuffled folds and \<open>random_state = 0\<close>.\<close>

definition demo_search :: "(nat, step list, unit, fold_table) evaluator" where
  "demo_search = Evaluator_init (Some [(''no'', [noop_step])]) 3 True (Some 0)"

text \<open>
  Two estimators, six samples of two features with their labels, two new samples and a
  file store that holds the six samples, for concrete runs of the layer.
\<close>

definition label_sum_estimator :: "real estimator" where
  "label_sum_estimator = \<lparr> est_fit = (\<lambda>A b. Some (sum_list b)), est_predict = (\<lambda>m x. m) \<rparr>"

definition feature_sum_estimator :: "real estimator" where
  "feature_sum_estimator =
     \<lparr> est_fit = (\<lambda>A b. Some (sum_list (map sum_list A))), est_predict = (\<lambda>m x. m + sum_list x) \<rparr>"

definition demo_X :: matrix where
  "demo_X = [[1, 2], [3, 4], [5, 6], [7, 8], [9, 10], [11, 12]]"

definition demo_y :: "real list" where
  "demo_y = [0, 1, 0, 1, 0, 1]"

definition demo_X_new :: matrix where
  "demo_X_new = [[1, 1], [2, 2]]"


section \<open>Properties\<close>

subsection \<open>Parameter draws\<close>

lemma fill_draws_ok:
  "k + length vs \<le> length pd \<Longrightarrow>
   \<exists>pd'. fill_draws p (enumerate k vs) pd = Inr pd' \<and> length pd' = length pd \<and>
     (\<forall>i<length pd. pd' ! i =
        (if k \<le> i \<and> i < k + length vs then AList.update p (vs ! (i - k)) (pd ! i) else pd ! i))"
proof (induction vs arbitrary: k pd)
  case Nil
  then show ?case by auto
next
  case (Cons v vs)
  let ?pd1 = "pd[k := AList.update p v (pd ! k)]"
  from Cons.prems have k: "k < length pd" by simp
  from Cons.prems have "Suc k + length vs \<le> length ?pd1" by simp
  from Cons.IH[OF this] obtain pd' where
    r: "fill_draws p (enumerate (Suc k) vs) ?pd1 = Inr pd'" and
    l: "length pd' = length ?pd1" and
    c: "\<forall>i<length ?pd1. pd' ! i =
        (if Suc k \<le> i \<and> i < Suc k + length vs then AList.update p (vs ! (i - Suc k)) (?pd1 ! i) else ?pd1 ! i)"
    by blast
  have "fill_draws p (enumerate k (v # vs)) pd = Inr pd'" using k r by simp
  moreover have "length pd' = length pd" using l by simp
  moreover have "\<forall>i<length pd. pd' ! i =
        (if k \<le> i \<and> i < k + length (v # vs) then AList.update p ((v # vs) ! (i - k)) (pd ! i) else pd ! i)"
  proof (intro allI impI)
    fix i assume i: "i < length pd"
    show "pd' ! i = (if k \<le> i \<and> i < k + length (v # vs) then AList.update p ((v # vs) ! (i - k)) (pd ! i) else pd ! i)"
    proof (cases "i = k")
      case True
      then show ?thesis using c i by simp
    next
      case False
      then show ?thesis using c i by (auto simp: nth_Cons')
    qed
  qed
  ultimately show ?case by blast
qed

lemma rvs_length: "wf_dist n d \<Longrightarrow> length (fst (rvs d n rs g)) = n"
  by (cases rs) (auto simp: rvs_def wf_dist_def)

lemma fill_draws_all:
  assumes "length vs = length pd"
  shows "fill_draws p (enumerate 0 vs) pd = Inr (map (\<lambda>(v, al). AList.update p v al) (zip vs pd))"
proof -
  from assms have "0 + length vs \<le> length pd" by simp
  from fill_draws_ok[OF this, of p] obtain pd' where
    r: "fill_draws p (enumerate 0 vs) pd = Inr pd'" and l: "length pd' = length pd"
    and c: "\<forall>i<length pd. pd' ! i = (if 0 \<le> i \<and> i < 0 + length vs then AList.update p (vs ! (i - 0)) (pd ! i) else pd ! i)"
    by blast
  have "pd' = map (\<lambda>(v, al). AList.update p v al) (zip vs pd)"
    using l c assms by (intro nth_equalityI) auto
  with r show ?thesis by simp
qed

lemma fill_params_ok:
  assumes "distinct (map fst items)" "\<forall>(p, d) \<in> set items. wf_dist n d" "length pd = n"
  shows "\<exists>pd' g'. fill_params n rs items pd g = (Inr pd', g') \<and> fill_post n rs items pd pd'"
  using assms
proof (induction items arbitrary: pd g)
  case Nil
  then show ?case by (simp add: fill_post_def)
next
  case (Cons it items)
  obtain p d where it: "it = (p, d)" by (cases it)
  obtain draws g1 where dr: "rvs d n rs g = (draws, g1)" by (cases "rvs d n rs g")
  have wf: "wf_dist n d" using Cons.prems(2) it by auto
  have ld: "length draws = n" using rvs_length[OF wf, of rs g] dr by simp
  let ?pd1 = "map (\<lambda>(v, al). AList.update p v al) (zip draws pd)"
  have fd: "fill_draws p (enumerate 0 draws) pd = Inr ?pd1"
    using fill_draws_all[of draws pd p] ld Cons.prems(3) by simp
  have l1: "length ?pd1 = n" using ld Cons.prems(3) by simp
  have nth1: "\<And>i. i < n \<Longrightarrow> ?pd1 ! i = AList.update p (draws ! i) (pd ! i)"
    using ld Cons.prems(3) by simp
  have d': "distinct (map fst items)" and w': "\<forall>(p, d) \<in> set items. wf_dist n d"
    and pn: "p \<notin> fst ` set items"
    using Cons.prems it by auto
  from Cons.IH[OF d' w' l1, of g1] obtain pd' g' where
    r: "fill_params n rs items ?pd1 g1 = (Inr pd', g')" and post: "fill_post n rs items ?pd1 pd'"
    by blast
  note pp = post[unfolded fill_post_def]
  note l = pp[THEN conjunct1]
    and k = pp[THEN conjunct2, THEN conjunct1]
    and di = pp[THEN conjunct2, THEN conjunct2, THEN conjunct1]
    and fr = pp[THEN conjunct2, THEN conjunct2, THEN conjunct2, THEN conjunct1]
    and va = pp[THEN conjunct2, THEN conjunct2, THEN conjunct2, THEN conjunct2]
  have R: "fill_params n rs (it # items) pd g = (Inr pd', g')"
    using it dr fd r by simp
  have K: "\<forall>i<n. fst ` set (pd' ! i) = fst ` set (pd ! i) \<union> fst ` set (it # items)"
    using k nth1 it by (auto simp: dom_update)
  have D: "\<forall>i<n. distinct (map fst (pd ! i)) \<longrightarrow> distinct (map fst (pd' ! i))"
    using di nth1 by (simp add: distinct_update)
  have F: "\<forall>q. q \<notin> fst ` set (it # items) \<longrightarrow> (\<forall>i<n. map_of (pd' ! i) q = map_of (pd ! i) q)"
    using fr nth1 it by (auto simp: update_conv')
  have "\<forall>i<n. map_of (pd' ! i) p = Some (fst (rvs d n rs g) ! i)"
    using fr pn nth1 dr by (simp add: update_conv')
  then have V: "\<forall>(p, d) \<in> set (it # items). \<exists>g0. \<forall>i<n. map_of (pd' ! i) p = Some (fst (rvs d n rs g0) ! i)"
    using va it by auto
  have "fill_post n rs (it # items) pd pd'"
    unfolding fill_post_def using l K D F V by (intro conjI)
  with R show ?case by blast
qed

lemma draw_params_ok:
  assumes "map_of (param_dicts_attr ev) e = Some items" "wf_param_dict (n_iter ev) items"
  shows "\<exists>pd g'. draw_params ev e g = (Inr pd, g') \<and>
           aligned_draws (n_iter ev) (random_state ev) items pd"
proof -
  let ?n = "n_iter ev"
  have "length (replicate ?n ([] :: 'a params)) = ?n" by simp
  from fill_params_ok[OF _ _ this, of items "random_state ev" g] assms(2)
  obtain pd g' where r: "fill_params ?n (random_state ev) items (replicate ?n []) g = (Inr pd, g')"
    and post: "fill_post ?n (random_state ev) items (replicate ?n []) pd"
    unfolding wf_param_dict_def by blast
  have "aligned_draws ?n (random_state ev) items pd"
    using post unfolding fill_post_def aligned_draws_def
    by (simp del: map_of_eq_Some_iff)
  moreover have "draw_params ev e g = (Inr pd, g')"
    using assms(1) r by (simp add: draw_params_def)
  ultimately show ?thesis by blast
qed

lemma draw_all_ok:
  assumes "\<forall>e \<in> fst ` set L. \<exists>items. map_of (param_dicts_attr ev) e = Some items \<and>
             wf_param_dict (n_iter ev) items"
  shows "\<exists>ps' g'. draw_all ev L ps g = (Inr ps', g') \<and> draws_post ev (fst ` set L) ps ps'"
  using assms
proof (induction L arbitrary: ps g)
  case Nil
  then show ?case by (simp add: draws_post_def)
next
  case (Cons a L)
  obtain e est where a: "a = (e, est)" by (cases a)
  from Cons.prems a obtain items where
    it: "map_of (param_dicts_attr ev) e = Some items" and wf: "wf_param_dict (n_iter ev) items"
    by auto
  from draw_params_ok[OF it wf, of g] obtain pd g1 where
    dp: "draw_params ev e g = (Inr pd, g1)"
    and al: "aligned_draws (n_iter ev) (random_state ev) items pd" by blast
  have pre: "\<forall>e \<in> fst ` set L. \<exists>items. map_of (param_dicts_attr ev) e = Some items \<and>
             wf_param_dict (n_iter ev) items"
    using Cons.prems by auto
  let ?ps1 = "AList.update e pd ps"
  from Cons.IH[OF pre, of ?ps1 g1] obtain ps' g' where
    r: "draw_all ev L ?ps1 g1 = (Inr ps', g')" and post: "draws_post ev (fst ` set L) ?ps1 ps'"
    by blast
  have R: "draw_all ev (a # L) ps g = (Inr ps', g')" using a dp r by simp
  note pp = post[unfolded draws_post_def]
  note k = pp[THEN conjunct1]
    and di = pp[THEN conjunct2, THEN conjunct1]
    and fr = pp[THEN conjunct2, THEN conjunct2, THEN conjunct1]
    and va = pp[THEN conjunct2, THEN conjunct2, THEN conjunct2]
  have K: "fst ` set ps' = fst ` set ps \<union> fst ` set (a # L)"
    using k a by (auto simp: dom_update)
  have D: "distinct (map fst ps) \<longrightarrow> distinct (map fst ps')"
    using di by (simp add: distinct_update)
  have F: "\<forall>x. x \<notin> fst ` set (a # L) \<longrightarrow> map_of ps' x = map_of ps x"
    using fr a by (auto simp: update_conv')
  have E: "\<exists>pd items. map_of ps' e = Some pd \<and> map_of (param_dicts_attr ev) e = Some items \<and>
         aligned_draws (n_iter ev) (random_state ev) items pd"
  proof (cases "e \<in> fst ` set L")
    case True
    with va show ?thesis by blast
  next
    case False
    with fr have "map_of ps' e = Some pd" by (simp add: update_conv')
    with it al show ?thesis by blast
  qed
  have V: "\<forall>x \<in> fst ` set (a # L). \<exists>pd items. map_of ps' x = Some pd \<and>
         map_of (param_dicts_attr ev) x = Some items \<and>
         aligned_draws (n_iter ev) (random_state ev) items pd"
    using va E a by auto
  have "draws_post ev (fst ` set (a # L)) ps ps'"
    unfolding draws_post_def using K D F V by (intro conjI)
  with R show ?case by blast
qed






lemma lcg_draws_length: "length (fst (lcg_draws lo w n g)) = n"
  by (induction n arbitrary: g) (simp_all add: Let_def split_beta)

lemma wf_dist_randint: "wf_dist n (randint lo hi)"
  by (simp add: wf_dist_def randint_def lcg_draws_length)



subsection \<open>Seeded and unseeded draws\<close>

lemma rvs_seeded: "rvs d n (Some s) g = (fst (d n (seed_rng s)), g)"
  by (simp add: rvs_def)

lemma lcg_draws_seed0: "lcg_draws 0 10 (Suc (Suc (Suc 0))) 0 = ([5, 6, 5], 654583775)"
  by (simp add: lcg_next_def)

lemma randint_0_10_seed0: "randint 0 10 3 0 = ([5, 6, 5], 654583775)"
  unfolding randint_def numeral_3_eq_3 using lcg_draws_seed0 by simp

lemma lcg_draws_g7: "lcg_draws 0 10 (Suc (Suc (Suc 0))) 7 = ([6, 3, 8], 712265938)"
  by (simp add: lcg_next_def)

lemma randint_0_10_g7: "randint 0 10 3 7 = ([6, 3, 8], 712265938)"
  unfolding randint_def numeral_3_eq_3 using lcg_draws_g7 by simp

lemma lcg_draws_g7b: "lcg_draws 0 10 (Suc (Suc (Suc 0))) 712265938 = ([1, 0, 1], 220562521)"
  by (simp add: lcg_next_def)

lemma randint_0_10_g7b: "randint 0 10 3 712265938 = ([1, 0, 1], 220562521)"
  unfolding randint_def numeral_3_eq_3 using lcg_draws_g7b by simp

lemma replicate_3: "replicate 3 x = [x, x, x]"
  by (simp add: numeral_3_eq_3)

text \<open>
  C4, as stated, fails. With \<open>random_state = 0\<close> the hyperparameters \<open>alpha\<close> and \<open>beta\<close>
  of one estimator, which declare the same distribution, receive the same value in every
  draw, and so does \<open>k\<close> of the other estimator: the sequences are paired.
\<close>

theorem paired_draws_counterexample:
  "fst (draw_params (demo_evaluator (Some 0)) ''ols'' 7) =
     Inr [[(''alpha'', 5), (''beta'', 5)], [(''alpha'', 6), (''beta'', 6)],
          [(''alpha'', 5), (''beta'', 5)]] \<and>
   fst (draw_params (demo_evaluator (Some 0)) ''knn'' 7) =
     Inr [[(''k'', 5)], [(''k'', 6)], [(''k'', 5)]]"
  by (simp add: draw_params_def demo_evaluator_def Evaluator_init_def rvs_def seed_rng_def
      randint_0_10_seed0 replicate_3)

lemma unseeded_draws_differ:
  "fst (draw_params (demo_evaluator None) ''ols'' 7) =
     Inr [[(''alpha'', 6), (''beta'', 1)], [(''alpha'', 3), (''beta'', 0)],
          [(''alpha'', 8), (''beta'', 1)]]"
  by (simp add: draw_params_def demo_evaluator_def Evaluator_init_def rvs_def
      randint_0_10_g7 randint_0_10_g7b replicate_3)

text \<open>
  C4, amended. One draw call is made per hyperparameter distribution and each call is
  passed the evaluator's \<open>random_state\<close>. With an integer \<open>random_state\<close> every call is
  seeded alike: a hyperparameter \<open>p\<close> of estimator \<open>e\<close> and a hyperparameter \<open>q\<close> of
  estimator \<open>e'\<close> (the same estimator or another) that declare the same distribution
  receive the same value in every draw, whatever the state of the shared generator. With
  \<open>random_state = None\<close> the calls draw one after another from the shared generator, and
  equal distributions are not forced to equal sequences (the last conjunct).
\<close>

theorem seeded_draws_paired:
  assumes rs: "random_state ev = Some s"
    and e: "map_of (param_dicts_attr ev) e = Some items" "wf_param_dict (n_iter ev) items"
    and e': "map_of (param_dicts_attr ev) e' = Some items'" "wf_param_dict (n_iter ev) items'"
    and p: "(p, d) \<in> set items" and q: "(q, d) \<in> set items'"
  shows "(\<exists>pd pd'. fst (draw_params ev e g) = Inr pd \<and> fst (draw_params ev e' h) = Inr pd' \<and>
           length pd = n_iter ev \<and> length pd' = n_iter ev \<and>
           (\<forall>i < n_iter ev. map_of (pd ! i) p = Some (fst (d (n_iter ev) (seed_rng s)) ! i) \<and>
                             map_of (pd' ! i) q = Some (fst (d (n_iter ev) (seed_rng s)) ! i))) \<and>
         fst (draw_params (demo_evaluator None) ''ols'' 7) =
           Inr [[(''alpha'', 6), (''beta'', 1)], [(''alpha'', 3), (''beta'', 0)],
                [(''alpha'', 8), (''beta'', 1)]]"
proof -
  from draw_params_ok[OF e, of g] obtain pd g' where
    r: "draw_params ev e g = (Inr pd, g')"
    and al: "aligned_draws (n_iter ev) (random_state ev) items pd" by blast
  from draw_params_ok[OF e', of h] obtain pd' h' where
    r': "draw_params ev e' h = (Inr pd', h')"
    and al': "aligned_draws (n_iter ev) (random_state ev) items' pd'" by blast
  from al p obtain g0 where
    "\<forall>i<n_iter ev. map_of (pd ! i) p = Some (fst (rvs d (n_iter ev) (random_state ev) g0) ! i)"
    unfolding aligned_draws_def by blast
  then have v: "\<forall>i<n_iter ev. map_of (pd ! i) p = Some (fst (d (n_iter ev) (seed_rng s)) ! i)"
    by (simp add: rs rvs_seeded)
  from al' q obtain g1 where
    "\<forall>i<n_iter ev. map_of (pd' ! i) q = Some (fst (rvs d (n_iter ev) (random_state ev) g1) ! i)"
    unfolding aligned_draws_def by blast
  then have v': "\<forall>i<n_iter ev. map_of (pd' ! i) q = Some (fst (d (n_iter ev) (seed_rng s)) ! i)"
    by (simp add: rs rvs_seeded)
  from al al' have "length pd = n_iter ev" "length pd' = n_iter ev"
    unfolding aligned_draws_def by simp_all
  then have "fst (draw_params ev e g) = Inr pd \<and> fst (draw_params ev e' h) = Inr pd' \<and>
           length pd = n_iter ev \<and> length pd' = n_iter ev \<and>
           (\<forall>i < n_iter ev. map_of (pd ! i) p = Some (fst (d (n_iter ev) (seed_rng s)) ! i) \<and>
                             map_of (pd' ! i) q = Some (fst (d (n_iter ev) (seed_rng s)) ! i))"
    using r r' v v' by simp
  then have "\<exists>pd pd'. fst (draw_params ev e g) = Inr pd \<and> fst (draw_params ev e' h) = Inr pd' \<and>
           length pd = n_iter ev \<and> length pd' = n_iter ev \<and>
           (\<forall>i < n_iter ev. map_of (pd ! i) p = Some (fst (d (n_iter ev) (seed_rng s)) ! i) \<and>
                             map_of (pd' ! i) q = Some (fst (d (n_iter ev) (seed_rng s)) ! i))"
    by (intro exI)
  with unseeded_draws_differ show ?thesis by (intro conjI)
qed

text \<open>
  The theorem at \<open>random_state = 0\<close>, for \<open>alpha\<close> of the first estimator and \<open>k\<close> of the
  second.
\<close>

theorem seeded_draws_paired_witness:
  "(\<exists>pd pd'. fst (draw_params (demo_evaluator (Some 0)) ''ols'' 7) = Inr pd \<and>
       fst (draw_params (demo_evaluator (Some 0)) ''knn'' 11) = Inr pd' \<and>
       length pd = n_iter (demo_evaluator (Some 0)) \<and>
       length pd' = n_iter (demo_evaluator (Some 0)) \<and>
       (\<forall>i < n_iter (demo_evaluator (Some 0)).
          map_of (pd ! i) ''alpha'' =
            Some (fst (randint 0 10 (n_iter (demo_evaluator (Some 0))) (seed_rng 0)) ! i) \<and>
          map_of (pd' ! i) ''k'' =
            Some (fst (randint 0 10 (n_iter (demo_evaluator (Some 0))) (seed_rng 0)) ! i))) \<and>
   fst (draw_params (demo_evaluator None) ''ols'' 7) =
     Inr [[(''alpha'', 6), (''beta'', 1)], [(''alpha'', 3), (''beta'', 0)],
          [(''alpha'', 8), (''beta'', 1)]]"
proof -
  let ?ev = "demo_evaluator (Some 0) :: (nat, unit, unit, unit) evaluator"
  have rs: "random_state ?ev = Some 0"
    by (simp add: demo_evaluator_def Evaluator_init_def)
  have e: "map_of (param_dicts_attr ?ev) ''ols'' =
             Some [(''alpha'', randint 0 10), (''beta'', randint 0 10)]"
    by (simp add: demo_evaluator_def)
  have w: "wf_param_dict (n_iter ?ev) [(''alpha'', randint 0 10), (''beta'', randint 0 10)]"
    by (simp add: wf_param_dict_def wf_dist_randint)
  have e': "map_of (param_dicts_attr ?ev) ''knn'' = Some [(''k'', randint 0 10)]"
    by (simp add: demo_evaluator_def)
  have w': "wf_param_dict (n_iter ?ev) [(''k'', randint 0 10)]"
    by (simp add: wf_param_dict_def wf_dist_randint)
  show ?thesis
    by (rule seeded_draws_paired[OF rs e w e' w']) simp_all
qed

subsection \<open>Determinism under a seed\<close>

lemma fill_params_seeded:
  "fill_params n (Some s) items pd g = (fst (fill_params n (Some s) items pd h), g)"
proof (induction items arbitrary: pd)
  case Nil
  then show ?case by simp
next
  case (Cons it items)
  obtain p d where it: "it = (p, d)" by (cases it)
  show ?case
  proof (cases "fill_draws p (enumerate 0 (fst (d n (seed_rng s)))) pd")
    case (Inl e)
    then show ?thesis by (simp add: it rvs_seeded)
  next
    case (Inr pd')
    then show ?thesis using Cons.IH[of pd'] by (simp add: it rvs_seeded)
  qed
qed

lemma draw_params_seeded:
  assumes "random_state ev = Some s"
  shows "draw_params ev e g = (fst (draw_params ev e h), g)"
proof (cases "map_of (param_dicts_attr ev) e")
  case None
  then show ?thesis by (simp add: draw_params_def)
next
  case (Some items)
  then show ?thesis
    unfolding draw_params_def assms by (simp only: option.case) (rule fill_params_seeded)
qed

lemma draw_all_seeded:
  assumes "random_state ev = Some s"
  shows "draw_all ev L ps g = (fst (draw_all ev L ps h), g)"
proof (induction L arbitrary: ps)
  case Nil
  then show ?case by simp
next
  case (Cons a L)
  obtain e est where a: "a = (e, est)" by (cases a)
  obtain r where r: "draw_params ev e h = (r, h)"
    using draw_params_seeded[OF assms, of e h h] by simp
  then have r': "draw_params ev e g = (r, g)"
    using draw_params_seeded[OF assms, of e g h] by simp
  show ?case
  proof (cases r)
    case (Inl err)
    then show ?thesis using r r' a by simp
  next
    case (Inr pd)
    then show ?thesis using r r' a Cons.IH[of "AList.update e pd ps"] by simp
  qed
qed

lemma param_sets_seeded:
  assumes "random_state ev = Some s"
  shows "param_sets ev g = (fst (param_sets ev h), g)"
proof -
  obtain r where r: "draw_all ev (estimators_attr ev) [] h = (r, h)"
    using draw_all_seeded[OF assms, of "estimators_attr ev" "[]" h h] by simp
  then have r': "draw_all ev (estimators_attr ev) [] g = (r, g)"
    using draw_all_seeded[OF assms, of "estimators_attr ev" "[]" g h] by simp
  show ?thesis unfolding param_sets_def r r'
    by (simp split: sum.splits)
qed

lemma permute_seeded: "permute (Some s) g xs = (fst (permute (Some s) h xs), g)"
  by (simp add: permute_def)

lemma build_seeded: "build n k shuf (Some s) g = (fst (build n k shuf (Some s) h), g)"
  by (simp add: build_def permute_def split_beta)

lemma preprocess_folds_seeded:
  "preprocess_folds cases X y k shuf (Some s) g = (fst (preprocess_folds cases X y k shuf (Some s) h), g)"
proof -
  obtain r where r: "build (length X) k shuf (Some s) h = (r, h)"
    using build_seeded[of "length X" k shuf s h h] by simp
  then have r': "build (length X) k shuf (Some s) g = (r, g)"
    using build_seeded[of "length X" k shuf s g h] by simp
  show ?thesis unfolding preprocess_folds_def r r'
    by (simp split: sum.splits)
qed

lemma evaluate_run_seeded:
  assumes "random_state ev = Some s"
  shows "outcome (evaluate_run cvf agg fl ev w1) = outcome (evaluate_run cvf agg fl ev w2)"
proof -
  obtain P where p1: "param_sets ev (gen w1) = (P, gen w1)"
    using param_sets_seeded[OF assms, of "gen w1" "gen w1"] by simp
  then have p2: "param_sets ev (gen w2) = (P, gen w2)"
    using param_sets_seeded[OF assms, of "gen w2" "gen w1"] by simp
  show ?thesis
    unfolding evaluate_run_def p1 p2 outcome_def
    by (simp add: Let_def split: sum.splits option.splits prod.splits)
qed

lemma preprocess_seeded:
  assumes "random_state ev = Some s"
  shows "outcome (preprocess preprocess_folds X y ev w1) = outcome (preprocess preprocess_folds X y ev w2)"
proof -
  obtain R where r1: "preprocess_folds (preprocessing ev) X y (cv ev) (shuffle ev) (Some s) (gen w1) = (R, gen w1)"
    using preprocess_folds_seeded[of "preprocessing ev" X y "cv ev" "shuffle ev" s "gen w1" "gen w1"] by simp
  then have r2: "preprocess_folds (preprocessing ev) X y (cv ev) (shuffle ev) (Some s) (gen w2) = (R, gen w2)"
    using preprocess_folds_seeded[of "preprocessing ev" X y "cv ev" "shuffle ev" s "gen w2" "gen w1"] by simp
  show ?thesis
    unfolding preprocess_def assms r1 r2 outcome_def
    by (simp add: Let_def split: sum.splits)
qed

lemma preprocess_random_state:
  "preprocess pf X y ev w = (r, ev', w') \<Longrightarrow> random_state ev' = random_state ev"
  by (auto simp: preprocess_def Let_def split: prod.splits sum.splits)

lemma evaluate_seeded:
  assumes "random_state ev = Some s"
  shows "outcome (evaluate preprocess_folds cvf agg X y ests pds n reset fl ev w1) =
         outcome (evaluate preprocess_folds cvf agg X y ests pds n reset fl ev w2)"
proof -
  let ?ev1 = "ev\<lparr>n_iter := n, estimators_attr := ests, param_dicts_attr := pds\<rparr>"
  have rs1: "random_state ?ev1 = Some s" using assms by simp
  show ?thesis
  proof (cases "dout ?ev1 = None \<or> reset")
    case False
    then obtain d where "dout ev = Some d" and "\<not> reset" by auto
    then show ?thesis
      using evaluate_run_seeded[OF rs1, of cvf agg fl w1 w2] by (simp add: evaluate_def Let_def)
  next
    case True
    obtain r1 e1 v1 where q1: "preprocess preprocess_folds X y ?ev1 w1 = (r1, e1, v1)"
      by (cases "preprocess preprocess_folds X y ?ev1 w1") auto
    obtain r2 e2 v2 where q2: "preprocess preprocess_folds X y ?ev1 w2 = (r2, e2, v2)"
      by (cases "preprocess preprocess_folds X y ?ev1 w2") auto
    from preprocess_seeded[OF rs1, of X y w1 w2] q1 q2 have eq: "r2 = r1" "e2 = e1"
      by (simp_all add: outcome_def)
    have rs2: "random_state e1 = Some s"
      using preprocess_random_state[OF q1] rs1 by simp
    show ?thesis
    proof (cases r1)
      case None
      then show ?thesis
        using True q1 q2 eq evaluate_run_seeded[OF rs2, of cvf agg fl v1 v2]
        by (simp add: evaluate_def Let_def)
    next
      case (Some e)
      then show ?thesis
        using True q1 q2 eq by (simp add: evaluate_def Let_def outcome_def)
    qed
  qed
qed

lemma draw_params_frame:
  assumes "n_iter ev' = n_iter ev" "random_state ev' = random_state ev"
    "param_dicts_attr ev' = param_dicts_attr ev"
  shows "draw_params ev' e g = draw_params ev e g"
  unfolding draw_params_def assms ..

lemma draw_all_frame:
  assumes "n_iter ev' = n_iter ev" "random_state ev' = random_state ev"
    "param_dicts_attr ev' = param_dicts_attr ev"
  shows "draw_all ev' L ps g = draw_all ev L ps g"
  by (induction L arbitrary: ps g)
    (auto simp: draw_params_frame[OF assms] split: prod.splits sum.splits)

lemma param_sets_frame:
  assumes "n_iter ev' = n_iter ev" "random_state ev' = random_state ev"
    "param_dicts_attr ev' = param_dicts_attr ev" "estimators_attr ev' = estimators_attr ev"
    "preprocessing ev' = preprocessing ev"
  shows "param_sets ev' g = param_sets ev g"
  unfolding param_sets_def draw_all_frame[OF assms(1,2,3)] assms(4,5) ..

lemma param_sets_same_config:
  assumes "same_config e e0" "random_state e0 = Some s"
  shows "param_sets e g = (fst (param_sets e0 h), g)"
proof -
  have "param_sets e g = param_sets e0 g"
    using assms(1) unfolding same_config_def by (intro param_sets_frame) simp_all
  with param_sets_seeded[OF assms(2), of g h] show ?thesis by simp
qed

lemma evaluate_run_attrs:
  assumes sc: "same_config e e0" and rs: "random_state e0 = Some s"
    and run: "evaluate_run cvf agg fl e w = (r, e', w')"
  shows "same_config e' e0 \<and>
    (case fst (param_sets e0 h) of
       Inl err \<Rightarrow> param_sets_attr e' = param_sets_attr e \<and> param_map e' = param_map e
     | Inr (ps, pm) \<Rightarrow> param_sets_attr e' = Some ps \<and> param_map e' = Some pm)"
proof -
  note p = param_sets_same_config[OF sc rs, of "gen w" h]
  show ?thesis
  proof (cases "fst (param_sets e0 h)")
    case (Inl err)
    with run p sc show ?thesis by (auto simp: evaluate_run_def)
  next
    case (Inr q)
    obtain ps pm where q: "q = (ps, pm)" by (cases q)
    from run p Inr q sc show ?thesis
      unfolding evaluate_run_def same_config_def
      by (auto simp: Let_def split: option.splits sum.splits prod.splits if_splits)
  qed
qed

lemma preprocess_attrs:
  assumes "preprocess pf X y e w = (r, e', w')"
  shows "same_config e' e \<and> param_sets_attr e' = param_sets_attr e \<and> param_map e' = param_map e \<and>
         (r \<noteq> None \<longrightarrow> dout e' = dout e) \<and> (r = None \<longrightarrow> dout e' \<noteq> None)"
  using assms unfolding preprocess_def same_config_def
  by (auto simp: Let_def split: prod.splits sum.splits)

lemma preprocess_same_error:
  assumes sc: "same_config e1 e2" and rs: "random_state e2 = Some s"
  shows "fst (preprocess preprocess_folds X y e1 w1) = fst (preprocess preprocess_folds X y e2 w2)"
proof -
  from sc rs have rs1: "random_state e1 = Some s" by (simp add: same_config_def)
  obtain R where r1: "preprocess_folds (preprocessing e2) X y (cv e2) (shuffle e2) (Some s) (gen w1) = (R, gen w1)"
    using preprocess_folds_seeded[of "preprocessing e2" X y "cv e2" "shuffle e2" s "gen w1" "gen w1"] by simp
  then have r2: "preprocess_folds (preprocessing e2) X y (cv e2) (shuffle e2) (Some s) (gen w2) = (R, gen w2)"
    using preprocess_folds_seeded[of "preprocessing e2" X y "cv e2" "shuffle e2" s "gen w2" "gen w1"] by simp
  have c: "preprocessing e1 = preprocessing e2" "cv e1 = cv e2" "shuffle e1 = shuffle e2"
    using sc by (simp_all add: same_config_def)
  show ?thesis
    unfolding preprocess_def c rs rs1 r1 r2
    by (simp add: Let_def split: sum.splits)
qed

lemma same_config_trans: "same_config a b \<Longrightarrow> same_config b c \<Longrightarrow> same_config a c"
  by (simp add: same_config_def)

lemma same_config_refl: "same_config a a"
  by (simp add: same_config_def)

lemma evaluate_attrs:
  fixes ev :: "('v, step list, 'e, fold_table) evaluator"
  assumes rs: "random_state ev = Some s"
    and run: "evaluate preprocess_folds cvf agg X y ests pds n reset fl ev w = (r, ev', w')"
  defines "e0 \<equiv> ev\<lparr>n_iter := n, estimators_attr := ests, param_dicts_attr := pds\<rparr>"
  shows "same_config ev' e0 \<and>
    (if (dout ev = None \<or> reset) \<and> fst (preprocess preprocess_folds X y e0 w) \<noteq> None
     then param_sets_attr ev' = param_sets_attr ev \<and> param_map ev' = param_map ev \<and>
          dout ev' = dout ev
     else (case fst (param_sets e0 h) of
             Inl err \<Rightarrow> param_sets_attr ev' = param_sets_attr ev \<and> param_map ev' = param_map ev
           | Inr (ps, pm) \<Rightarrow> param_sets_attr ev' = Some ps \<and> param_map ev' = Some pm))"
proof -
  have rs0: "random_state e0 = Some s" using rs by (simp add: e0_def)
  have at0: "param_sets_attr e0 = param_sets_attr ev" "param_map e0 = param_map ev" "dout e0 = dout ev"
    by (simp_all add: e0_def)
  show ?thesis
  proof (cases "dout ev = None \<or> reset")
    case False
    then obtain d where "dout ev = Some d" "\<not> reset" by auto
    with run have rr: "evaluate_run cvf agg fl e0 w = (r, ev', w')"
      by (simp add: evaluate_def Let_def e0_def)
    from evaluate_run_attrs[OF same_config_refl rs0 rr, of h] at0 False show ?thesis
      by (auto split: sum.splits)
  next
    case True
    obtain r1 e1 v1 where q: "preprocess preprocess_folds X y e0 w = (r1, e1, v1)"
      by (cases "preprocess preprocess_folds X y e0 w") auto
    note pa = preprocess_attrs[OF q]
    show ?thesis
    proof (cases r1)
      case (Some err)
      with run True q have "ev' = e1" by (simp add: evaluate_def Let_def e0_def)
      with pa at0 Some True q show ?thesis by simp
    next
      case None
      with run True q have rr: "evaluate_run cvf agg fl e1 v1 = (r, ev', w')"
        by (simp add: evaluate_def Let_def e0_def)
      from evaluate_run_attrs[OF pa[THEN conjunct1] rs0 rr, of h] pa at0 None q show ?thesis
        by (auto split: sum.splits)
    qed
  qed
qed

lemma evaluate_repeated:
  fixes ev :: "('v, step list, 'e, fold_table) evaluator"
  assumes rs: "random_state ev = Some s"
    and run1: "evaluate preprocess_folds cvf agg X y ests pds n reset fl ev w = (r1, ev1, v1)"
    and run2: "evaluate preprocess_folds cvf agg X y ests pds n reset fl ev1 v1 = (r2, ev2, v2)"
  shows "param_sets_attr ev2 = param_sets_attr ev1 \<and> param_map ev2 = param_map ev1"
proof -
  let ?e0 = "ev\<lparr>n_iter := n, estimators_attr := ests, param_dicts_attr := pds\<rparr>"
  let ?e1 = "ev1\<lparr>n_iter := n, estimators_attr := ests, param_dicts_attr := pds\<rparr>"
  have rs0: "random_state ?e0 = Some s" using rs by simp
  note a1 = evaluate_attrs[OF rs run1, of 0]
  from a1 have sc1: "same_config ev1 ?e0" by simp
  then have rs1: "random_state ev1 = Some s" using rs by (simp add: same_config_def)
  note a2 = evaluate_attrs[OF rs1 run2, of 0]
  have sc01: "same_config ?e1 ?e0" using sc1 by (simp add: same_config_def)
  have R: "fst (param_sets ?e1 0) = fst (param_sets ?e0 0)"
    using param_sets_same_config[OF sc01 rs0, of 0 0] by simp
  have E: "fst (preprocess preprocess_folds X y ?e1 v1) = fst (preprocess preprocess_folds X y ?e0 w)"
    by (rule preprocess_same_error[OF sc01 rs0])
  show ?thesis
  proof (cases "(dout ev = None \<or> reset) \<and> fst (preprocess preprocess_folds X y ?e0 w) \<noteq> None")
    case True
    with a1 have d: "dout ev1 = dout ev" by simp
    with True E have "(dout ev1 = None \<or> reset) \<and> fst (preprocess preprocess_folds X y ?e1 v1) \<noteq> None"
      by simp
    with a2 show ?thesis by simp
  next
    case False
    with a1 have f: "case fst (param_sets ?e0 0) of
             Inl err \<Rightarrow> param_sets_attr ev1 = param_sets_attr ev \<and> param_map ev1 = param_map ev
           | Inr (ps, pm) \<Rightarrow> param_sets_attr ev1 = Some ps \<and> param_map ev1 = Some pm"
      by simp
    show ?thesis
    proof (cases "(dout ev1 = None \<or> reset) \<and> fst (preprocess preprocess_folds X y ?e1 v1) \<noteq> None")
      case True
      with a2 show ?thesis by simp
    next
      case False
      with a2 have "case fst (param_sets ?e1 0) of
             Inl err \<Rightarrow> param_sets_attr ev2 = param_sets_attr ev1 \<and> param_map ev2 = param_map ev1
           | Inr (ps, pm) \<Rightarrow> param_sets_attr ev2 = Some ps \<and> param_map ev2 = Some pm"
        by simp
      with f R show ?thesis by (auto split: sum.splits)
    qed
  qed
qed

text \<open>
  C5. With an integer \<open>random_state\<close>, a run of \<open>evaluate\<close> on the same object and inputs
  raises the same exception or none and leaves the same object (fold table, parameter
  sets, parameter map, results) whatever the state of the shared generator and the trace
  before it; the fold plan of \<open>m\<close> samples and the parameter draws are the same from any
  two generator states; and a second run on the object the first run left, with the same
  inputs, leaves the parameter sets and the parameter map as the first run left them.
\<close>

theorem evaluate_deterministic:
  fixes ev :: "('v, step list, 'e, fold_table) evaluator"
  assumes "random_state ev = Some s"
  shows "outcome (evaluate preprocess_folds cvf agg X y ests pds n reset fl ev w1) =
         outcome (evaluate preprocess_folds cvf agg X y ests pds n reset fl ev w2) \<and>
         fst (build m (cv ev) (shuffle ev) (random_state ev) g1) =
         fst (build m (cv ev) (shuffle ev) (random_state ev) g2) \<and>
         fst (param_sets ev g1) = fst (param_sets ev g2) \<and>
         (let run1 = evaluate preprocess_folds cvf agg X y ests pds n reset fl ev w1;
              run2 = evaluate preprocess_folds cvf agg X y ests pds n reset fl
                       (fst (snd run1)) (snd (snd run1))
          in param_sets_attr (fst (snd run2)) = param_sets_attr (fst (snd run1)) \<and>
             param_map (fst (snd run2)) = param_map (fst (snd run1)))"
proof -
  have "build m (cv ev) (shuffle ev) (Some s) g1 =
          (fst (build m (cv ev) (shuffle ev) (Some s) g2), g1)"
    by (rule build_seeded)
  then have b: "fst (build m (cv ev) (shuffle ev) (random_state ev) g1) =
         fst (build m (cv ev) (shuffle ev) (random_state ev) g2)"
    by (simp add: assms)
  have "param_sets ev g1 = (fst (param_sets ev g2), g1)"
    using assms by (rule param_sets_seeded)
  then have p: "fst (param_sets ev g1) = fst (param_sets ev g2)" by simp
  obtain r1 ev1 v1 where run1:
    "evaluate preprocess_folds cvf agg X y ests pds n reset fl ev w1 = (r1, ev1, v1)"
    by (cases "evaluate preprocess_folds cvf agg X y ests pds n reset fl ev w1") auto
  obtain r2 ev2 v2 where run2:
    "evaluate preprocess_folds cvf agg X y ests pds n reset fl ev1 v1 = (r2, ev2, v2)"
    by (cases "evaluate preprocess_folds cvf agg X y ests pds n reset fl ev1 v1") auto
  have "param_sets_attr ev2 = param_sets_attr ev1 \<and> param_map ev2 = param_map ev1"
    using assms run1 run2 by (rule evaluate_repeated)
  then have q: "let run1 = evaluate preprocess_folds cvf agg X y ests pds n reset fl ev w1;
              run2 = evaluate preprocess_folds cvf agg X y ests pds n reset fl
                       (fst (snd run1)) (snd (snd run1))
          in param_sets_attr (fst (snd run2)) = param_sets_attr (fst (snd run1)) \<and>
             param_map (fst (snd run2)) = param_map (fst (snd run1))"
    by (simp add: run1 run2 Let_def)
  from evaluate_seeded[OF assms] b p q show ?thesis by (intro conjI)
qed

text \<open>
  The theorem at an evaluator over one no-op case with \<open>random_state = 0\<close>, for two worlds
  that differ in generator state and trace.
\<close>

theorem evaluate_deterministic_witness:
  "outcome (evaluate preprocess_folds cv_stub exact_aggs demo_X demo_y
        [(''ols'', ())] [(''ols'', [(''alpha'', randint 0 10)])] 3 False False
        demo_search \<lparr>gen = 1, trace = []\<rparr>) =
   outcome (evaluate preprocess_folds cv_stub exact_aggs demo_X demo_y
        [(''ols'', ())] [(''ols'', [(''alpha'', randint 0 10)])] 3 False False
        demo_search \<lparr>gen = 2, trace = [PreprocessFolds]\<rparr>) \<and>
   fst (build 6 (cv demo_search) (shuffle demo_search) (random_state demo_search) 1) =
   fst (build 6 (cv demo_search) (shuffle demo_search) (random_state demo_search) 2) \<and>
   fst (param_sets demo_search 1) = fst (param_sets demo_search 2) \<and>
   (let run1 = evaluate preprocess_folds cv_stub exact_aggs demo_X demo_y
        [(''ols'', ())] [(''ols'', [(''alpha'', randint 0 10)])] 3 False False
        demo_search \<lparr>gen = 1, trace = []\<rparr>;
        run2 = evaluate preprocess_folds cv_stub exact_aggs demo_X demo_y
        [(''ols'', ())] [(''ols'', [(''alpha'', randint 0 10)])] 3 False False
        (fst (snd run1)) (snd (snd run1))
    in param_sets_attr (fst (snd run2)) = param_sets_attr (fst (snd run1)) \<and>
       param_map (fst (snd run2)) = param_map (fst (snd run1)))"
  by (rule evaluate_deterministic) (simp add: demo_search_def Evaluator_init_def)

subsection \<open>The demonstration evaluator, evaluated\<close>

lemma draw_all_demo:
  "draw_all (demo_evaluator (Some 0)) (estimators_attr (demo_evaluator (Some 0))) [] g = (Inr demo_ps, g)"
  by (simp add: draw_params_def demo_evaluator_def Evaluator_init_def rvs_def seed_rng_def
      randint_0_10_seed0 replicate_3 demo_ps_def)

lemma flatten_demo:
  "flatten_ests (Some [(''sc'', ()), (''no'', ())]) demo_ps [] = Inr demo_pm"
  by (simp add: demo_ps_def demo_pm_def flatten_cases_def numeral_2_eq_2 numeral_3_eq_3)

lemma param_sets_demo:
  "param_sets (demo_evaluator (Some 0)) g = (Inr (demo_ps, demo_pm), g)"
proof -
  have p: "preprocessing (demo_evaluator (Some 0) :: (nat, unit, unit, unit) evaluator)
             = Some [(''sc'', ()), (''no'', ())]"
    by (simp add: demo_evaluator_def Evaluator_init_def)
  show ?thesis by (simp add: param_sets_def draw_all_demo p flatten_demo)
qed

lemma results_demo_ok: "\<exists>c s b. results agg demo_records demo_pm = Inr (c, s, b)"
  by (simp add: results_def group_keys_def demo_records_def mk_record_def record_key_def
     group_rows_def aggregate_def best_index_def test_means_def idxmax_def
     loc_rows_def sort_values_desc_def demo_pm_def)

lemma evaluate_run_demo:
  assumes "param_sets ev (gen w) = (Inr (demo_ps, demo_pm), gen w)" "dout ev = Some d"
  shows "\<exists>ev'. evaluate_run cv_stub agg fl ev w = (None, ev', w\<lparr>trace := trace w @ [CrossValidate d]\<rparr>)"
proof -
  from results_demo_ok obtain c s b where r: "results agg demo_records demo_pm = Inr (c, s, b)"
    by blast
  show ?thesis
    by (simp add: evaluate_run_def assms cv_stub_def r Let_def)
qed

lemma cached_update:
  "cached_evaluator\<lparr>n_iter := 3, estimators_attr := [(''ols'', ()), (''knn'', ())],
      param_dicts_attr := [(''ols'', [(''alpha'', randint 0 10), (''beta'', randint 0 10)]),
                           (''knn'', [(''k'', randint 0 10)])]\<rparr> = cached_evaluator"
  by (simp add: cached_evaluator_def demo_evaluator_def)

lemma param_sets_cached:
  "param_sets cached_evaluator g = (Inr (demo_ps, demo_pm), g)"
  using param_sets_frame[of cached_evaluator "demo_evaluator (Some 0)" g] param_sets_demo[of g]
  by (simp add: cached_evaluator_def)

lemma evaluate_cached:
  "\<exists>ev'. evaluate folds_stub cv_stub agg X y [(''ols'', ()), (''knn'', ())]
      [(''ols'', [(''alpha'', randint 0 10), (''beta'', randint 0 10)]),
       (''knn'', [(''k'', randint 0 10)])] 3 False fl cached_evaluator world0
     = (None, ev', world0\<lparr>trace := [CrossValidate ()]\<rparr>)"
proof -
  have d: "dout cached_evaluator = Some ()" by (simp add: cached_evaluator_def)
  from evaluate_run_demo[OF param_sets_cached d, of agg fl world0] show ?thesis
    by (simp add: evaluate_def cached_update d world0_def)
qed

lemma evaluate_reset:
  "\<exists>ev'. evaluate folds_stub cv_stub agg X y [(''ols'', ()), (''knn'', ())]
      [(''ols'', [(''alpha'', randint 0 10), (''beta'', randint 0 10)]),
       (''knn'', [(''k'', randint 0 10)])] 3 True fl cached_evaluator world0
     = (None, ev', world0\<lparr>trace := [PreprocessFolds, CrossValidate ()]\<rparr>)"
proof -
  let ?ev = "cached_evaluator\<lparr>preprocessing_attr := Some (preprocessing cached_evaluator),
                dout := Some ()\<rparr>"
  let ?w = "world0\<lparr>trace := [PreprocessFolds]\<rparr>"
  have p: "preprocess folds_stub X y cached_evaluator world0 = (None, ?ev, ?w)"
    by (simp add: preprocess_def folds_stub_def world0_def)
  have "param_sets ?ev (gen ?w) = param_sets cached_evaluator (gen ?w)"
    by (rule param_sets_frame) simp_all
  then have ps: "param_sets ?ev (gen ?w) = (Inr (demo_ps, demo_pm), gen ?w)"
    by (simp add: param_sets_cached)
  have d: "dout ?ev = Some ()" by simp
  have "evaluate folds_stub cv_stub agg X y [(''ols'', ()), (''knn'', ())]
      [(''ols'', [(''alpha'', randint 0 10), (''beta'', randint 0 10)]),
       (''knn'', [(''k'', randint 0 10)])] 3 True fl cached_evaluator world0
     = evaluate_run cv_stub agg fl ?ev ?w"
    by (simp add: evaluate_def cached_update p)
  with evaluate_run_demo[OF ps d, of agg fl] show ?thesis
    by (simp add: world0_def)
qed

subsection \<open>The summary of the results\<close>

lemma lookup_params_ok:
  "\<forall>k \<in> set ks. k \<in> fst ` set pm \<Longrightarrow>
   lookup_params pm (map (\<lambda>k. (k, f k)) ks) = Inr (map (\<lambda>k. (k, (f k, the (map_of pm k)))) ks)"
proof (induction ks)
  case Nil
  then show ?case by simp
next
  case (Cons k ks)
  from Cons.prems have "k \<in> fst ` set pm" by simp
  then obtain prm where "map_of pm k = Some prm"
    by (metis domD dom_map_of_conv_image_fst)
  with Cons show ?case by simp
qed

lemma first_max_split:
  "\<exists>pre post. b # rest = pre @ first_max b rest # post \<and>
      (\<forall>x \<in> set pre. snd x < snd (first_max b rest)) \<and>
      (\<forall>x \<in> set post. snd x \<le> snd (first_max b rest))"
proof (induction rest arbitrary: b)
  case Nil
  have "[b] = [] @ first_max b [] # []" by simp
  then show ?case by fastforce
next
  case (Cons x xs)
  show ?case
  proof (cases "snd b < snd x")
    case True
    let ?r = "first_max x xs"
    from Cons.IH[of x] obtain pre post where
      d: "x # xs = pre @ ?r # post" and lt: "\<forall>y \<in> set pre. snd y < snd ?r"
      and le: "\<forall>y \<in> set post. snd y \<le> snd ?r" by blast
    have "x \<in> set (pre @ ?r # post)" using d by (metis list.set_intros(1))
    then have "snd x \<le> snd ?r" using lt le by auto
    with True have "snd b < snd ?r" by simp
    moreover have "b # x # xs = (b # pre) @ ?r # post" using d by simp
    moreover have "first_max b (x # xs) = ?r" using True by simp
    ultimately show ?thesis using lt le
      by (metis set_ConsD)
  next
    case False
    let ?r = "first_max b xs"
    have fm: "first_max b (x # xs) = ?r" using False by simp
    from Cons.IH[of b] obtain pre post where
      d: "b # xs = pre @ ?r # post" and lt: "\<forall>y \<in> set pre. snd y < snd ?r"
      and le: "\<forall>y \<in> set post. snd y \<le> snd ?r" by blast
    show ?thesis
    proof (cases pre)
      case Nil
      with d have "b = ?r" "xs = post" by (metis append_Nil list.inject)+
      then have "b # x # xs = [] @ ?r # (x # post)" by simp
      moreover have "\<forall>y \<in> set (x # post). snd y \<le> snd ?r"
        using le False \<open>b = ?r\<close> by auto
      ultimately show ?thesis unfolding fm by (metis empty_iff list.set(1))
    next
      case (Cons p pre')
      with d have "p = b" "xs = pre' @ ?r # post" by (metis append_Cons list.inject)+
      then have "b # x # xs = (b # x # pre') @ ?r # post" by simp
      moreover have "snd b < snd ?r" using lt Cons \<open>p = b\<close> by simp
      then have "\<forall>y \<in> set (b # x # pre'). snd y < snd ?r"
        using lt Cons False by auto
      ultimately show ?thesis unfolding fm using le by blast
    qed
  qed
qed

lemma filter_map_key:
  "distinct ks \<Longrightarrow> k \<in> set ks \<Longrightarrow>
   filter (\<lambda>(k', row). k' = k) (map (\<lambda>k. (k, f k)) ks) = [(k, f k)]"
proof (induction ks)
  case Nil
  then show ?case by simp
next
  case (Cons a ks)
  show ?case
  proof (cases "a = k")
    case True
    with Cons.prems have "k \<notin> set ks" by simp
    then have "filter (\<lambda>(k', row). k' = k) (map (\<lambda>k. (k, f k)) ks) = []"
      by (induction ks) auto
    with True show ?thesis by simp
  next
    case False
    with Cons show ?thesis by simp
  qed
qed

lemma group_keys_set: "set (group_keys out) = record_key ` set out"
  by (simp add: group_keys_def)

lemma group_keys_distinct: "distinct (group_keys out)"
  by (simp add: group_keys_def)

lemma group_keys_sorted: "sorted (group_keys out)"
  by (simp add: group_keys_def)

lemma idxmax_facts:
  fixes tm :: "((string \<times> nat) \<times> real) list"
  assumes ne: "tm \<noteq> []" and so: "sorted (map fst tm)" and es: "\<forall>x \<in> set tm. fst (fst x) = e"
  shows "\<exists>r. idxmax tm = [fst r] \<and> r \<in> set tm \<and> (\<forall>x \<in> set tm. snd x \<le> snd r) \<and>
             (\<forall>x \<in> set tm. snd x = snd r \<longrightarrow> snd (fst r) \<le> snd (fst x))"
proof -
  from ne obtain b rest where tm: "tm = b # rest" by (cases tm) auto
  let ?r = "first_max b rest"
  from first_max_split[of b rest] obtain pre post where
    d: "b # rest = pre @ ?r # post" and lt: "\<forall>x \<in> set pre. snd x < snd ?r"
    and le: "\<forall>x \<in> set post. snd x \<le> snd ?r" by blast
  have i: "idxmax tm = [fst ?r]" by (simp add: idxmax_def tm)
  have m: "?r \<in> set tm" unfolding tm d by simp
  have st: "set tm = set pre \<union> {?r} \<union> set post" unfolding tm d by auto
  have mx: "\<forall>x \<in> set tm. snd x \<le> snd ?r"
    using lt le unfolding st by auto
  have "sorted (map fst pre @ fst ?r # map fst post)"
    using so unfolding tm d by simp
  then have po: "\<forall>x \<in> set post. fst ?r \<le> fst x"
    by (simp add: sorted_append)
  have tie: "\<forall>x \<in> set tm. snd x = snd ?r \<longrightarrow> snd (fst ?r) \<le> snd (fst x)"
  proof (intro ballI impI)
    fix x assume x: "x \<in> set tm" and eq: "snd x = snd ?r"
    from x st consider "x \<in> set pre" | "x = ?r" | "x \<in> set post" by auto
    then show "snd (fst ?r) \<le> snd (fst x)"
    proof cases
      case 1
      with lt eq show ?thesis by auto
    next
      case 2
      then show ?thesis by simp
    next
      case 3
      with po have "fst ?r \<le> fst x" by simp
      moreover have "fst (fst ?r) = fst (fst x)" using es m x by simp
      ultimately show ?thesis by (simp add: less_eq_prod_def)
    qed
  qed
  from i m mx tie show ?thesis by blast
qed

lemma test_means_map:
  "test_means (map (\<lambda>k. (k, (f k, g k))) ks) e =
     map (\<lambda>k. (k, test_score_mean (f k))) (filter (\<lambda>k. fst k = e) ks)"
  unfolding test_means_def by (induction ks) auto

lemma loc_rows_map:
  assumes "distinct ks" "set idx \<subseteq> set ks"
  shows "loc_rows (map (\<lambda>k. (k, f k)) ks) idx = map (\<lambda>k. (fst k, f k)) idx"
  using assms(2)
proof (induction idx)
  case Nil
  then show ?case by (simp add: loc_rows_def)
next
  case (Cons k idx)
  then have "k \<in> set ks" "set idx \<subseteq> set ks" by simp_all
  with Cons.IH filter_map_key[OF assms(1) \<open>k \<in> set ks\<close>, of f] show ?case
    by (simp add: loc_rows_def)
qed

lemma map_of_map_key: "k \<in> set ks \<Longrightarrow> map_of (map (\<lambda>k. (k, f k)) ks) k = Some (f k)"
  by (induction ks) auto

text \<open>
  C2. For every non-empty list of result records whose (estimator-case, draw) keys are
  keys of the parameter map, as the records of an evaluation are, \<open>_results\<close> returns.
  Its summary has exactly one row per estimator-case of the records, and the rows are in
  descending order of mean test score. The row of an estimator-case \<open>e\<close> is that of one of
  its draws \<open>d\<close>: with \<open>G\<close> the records of \<open>e\<close> and \<open>d\<close>, the row holds the library's mean
  and standard deviation of the test scores, of the train scores and of the times of \<open>G\<close>, and
  the parameters that the parameter map has for \<open>(e, d)\<close>; it is the row of the aggregated
  table at \<open>(e, d)\<close>; no draw of \<open>e\<close> has a greater mean test score, and \<open>d\<close> is the lowest
  draw of \<open>e\<close> that reaches it.
\<close>

theorem results_summary:
  assumes ne: "out \<noteq> []"
    and keys: "\<forall>r \<in> set out. (estimator r, param_draw r) \<in> fst ` set pm"
  shows "\<exists>cvr summ best. results agg out pm = Inr (cvr, summ, best) \<and>
     distinct (map fst summ) \<and> fst ` set summ = estimator ` set out \<and>
     sorted_wrt (\<lambda>a b. test_score_mean (fst (snd b)) \<le> test_score_mean (fst (snd a))) summ \<and>
     (\<forall>(e, row) \<in> set summ. \<exists>d G.
         G = filter (\<lambda>r. estimator r = e \<and> param_draw r = d) out \<and> G \<noteq> [] \<and>
         fst row = \<lparr> test_score_mean = agg_mean agg (map test_score G),
                       test_score_std = agg_std agg (map test_score G),
                       train_score_mean = agg_mean agg (map train_score G),
                       train_score_std = agg_std agg (map train_score G),
                       time_mean = agg_mean agg (map time G),
                       time_std = agg_std agg (map time G) \<rparr> \<and>
         map_of pm (e, d) = Some (snd row) \<and> map_of cvr (e, d) = Some row \<and>
         (\<forall>d'. (\<exists>r \<in> set out. estimator r = e \<and> param_draw r = d') \<longrightarrow>
            agg_mean agg (map test_score (filter (\<lambda>r. estimator r = e \<and> param_draw r = d') out))
              \<le> test_score_mean (fst row) \<and>
            (agg_mean agg (map test_score (filter (\<lambda>r. estimator r = e \<and> param_draw r = d') out))
               = test_score_mean (fst row) \<longrightarrow> d \<le> d')))"
proof -
  define K where "K = group_keys out"
  define row where "row = (\<lambda>k. (aggregate agg (group_rows out k), the (map_of pm k)))"
  define cvr where "cvr = map (\<lambda>k. (k, row k)) K"
  define m where "m = (\<lambda>k. agg_mean agg (map test_score (group_rows out k)))"
  define E where "E = sort (remdups (map (fst \<circ> fst) cvr))"
  have Kset: "set K = record_key ` set out" by (simp add: K_def group_keys_set)
  have Kd: "distinct K" by (simp add: K_def group_keys_distinct)
  have Ks: "sorted K" by (simp add: K_def group_keys_sorted)
  from ne obtain r0 where "r0 \<in> set out" by (cases out) auto
  with keys have "record_key r0 \<in> fst ` set pm" by (simp add: record_key_def)
  then have pmne: "pm \<noteq> []" by auto
  have "\<forall>k \<in> set K. k \<in> fst ` set pm" using keys Kset by (auto simp: record_key_def)
  from lookup_params_ok[OF this, of "\<lambda>k. aggregate agg (group_rows out k)"]
  have lk: "lookup_params pm (map (\<lambda>k. (k, aggregate agg (group_rows out k))) (group_keys out)) = Inr cvr"
    by (simp add: cvr_def row_def K_def)
  have Eset: "set E = fst ` set K" by (auto simp: E_def cvr_def)
  have Ed: "distinct E" by (simp add: E_def)
  have tsm: "test_score_mean (fst (row k)) = m k" for k
    by (simp add: row_def m_def aggregate_def)
  have tm: "test_means cvr e = map (\<lambda>k. (k, m k)) (filter (\<lambda>k. fst k = e) K)" for e
    unfolding cvr_def row_def m_def test_means_map by (simp add: aggregate_def)
  have sel: "\<exists>k. idxmax (test_means cvr e) = [k] \<and> k \<in> set K \<and> fst k = e \<and>
               (\<forall>k' \<in> set K. fst k' = e \<longrightarrow> m k' \<le> m k \<and> (m k' = m k \<longrightarrow> snd k \<le> snd k'))"
    if e: "e \<in> set E" for e
  proof -
    let ?Ke = "filter (\<lambda>k. fst k = e) K"
    let ?tm = "map (\<lambda>k. (k, m k)) ?Ke"
    from e Eset obtain k0 where "k0 \<in> set K" "fst k0 = e" by auto
    then have "?Ke \<noteq> []" by (auto simp: filter_empty_conv)
    then have n: "?tm \<noteq> []" by simp
    have "map fst ?tm = ?Ke" by (simp add: o_def)
    then have s: "sorted (map fst ?tm)" using Ks by (simp add: sorted_wrt_filter)
    have es: "\<forall>x \<in> set ?tm. fst (fst x) = e" by auto
    from idxmax_facts[OF n s es] obtain r where
      i: "idxmax ?tm = [fst r]" and rm: "r \<in> set ?tm"
      and mx: "\<forall>x \<in> set ?tm. snd x \<le> snd r"
      and tie: "\<forall>x \<in> set ?tm. snd x = snd r \<longrightarrow> snd (fst r) \<le> snd (fst x)" by blast
    from rm obtain k where k: "r = (k, m k)" "k \<in> set K" "fst k = e" by auto
    have "\<forall>k' \<in> set K. fst k' = e \<longrightarrow> m k' \<le> m k \<and> (m k' = m k \<longrightarrow> snd k \<le> snd k')"
    proof (intro ballI impI)
      fix k' assume "k' \<in> set K" "fst k' = e"
      then have "(k', m k') \<in> set ?tm" by auto
      with mx tie k(1) show "m k' \<le> m k \<and> (m k' = m k \<longrightarrow> snd k \<le> snd k')" by fastforce
    qed
    with i k show ?thesis unfolding tm by auto
  qed
  then have "\<forall>e \<in> set E. \<exists>k. idxmax (test_means cvr e) = [k] \<and> k \<in> set K \<and> fst k = e \<and>
               (\<forall>k' \<in> set K. fst k' = e \<longrightarrow> m k' \<le> m k \<and> (m k' = m k \<longrightarrow> snd k \<le> snd k'))"
    by blast
  from bchoice[OF this] obtain kst where
    kst: "\<forall>e \<in> set E. idxmax (test_means cvr e) = [kst e] \<and> kst e \<in> set K \<and> fst (kst e) = e \<and>
               (\<forall>k' \<in> set K. fst k' = e \<longrightarrow> m k' \<le> m (kst e) \<and> (m k' = m (kst e) \<longrightarrow> snd (kst e) \<le> snd k'))"
    by blast
  have mm: "map (\<lambda>e. idxmax (test_means cvr e)) E = map (\<lambda>e. [kst e]) E"
    using kst by (intro map_cong) auto
  have best: "best_index cvr = map kst E"
    unfolding best_index_def E_def[symmetric] mm by (rule concat_map_singleton)
  have "set (map kst E) \<subseteq> set K" using kst by auto
  from loc_rows_map[OF Kd this, of row]
  have "loc_rows cvr (map kst E) = map (\<lambda>k. (fst k, row k)) (map kst E)"
    by (simp add: cvr_def)
  also have "\<dots> = map (\<lambda>e. (e, row (kst e))) E"
    using kst by (simp add: o_def)
  finally have loc: "loc_rows cvr (best_index cvr) = map (\<lambda>e. (e, row (kst e))) E"
    by (simp add: best)
  define summ0 where "summ0 = map (\<lambda>e. (e, row (kst e))) E"
  define summ where "summ = sort_values_desc summ0"
  have R: "results agg out pm = Inr (cvr, summ, best_index cvr)"
    using pmne lk loc by (simp add: results_def summ_def summ0_def)
  have ms: "mset summ = mset summ0" by (simp add: summ_def sort_values_desc_def)
  then have ss: "set summ = set summ0" by (rule mset_eq_setD)
  have "mset (map fst summ) = mset (map fst summ0)" using ms by (metis mset_map)
  moreover have "map fst summ0 = E" by (simp add: summ0_def o_def)
  ultimately have D: "distinct (map fst summ)"
    using Ed by (metis mset_eq_imp_distinct_iff)
  have "fst ` set summ = set E" unfolding ss by (auto simp: summ0_def image_iff)
  also have "\<dots> = estimator ` set out"
    unfolding Eset Kset by (auto simp: record_key_def image_iff)
  finally have S: "fst ` set summ = estimator ` set out" .
  have "sorted (map (\<lambda>(e, (s, prm)). - test_score_mean s) summ)"
    unfolding summ_def sort_values_desc_def by (rule sorted_sort_key)
  then have O: "sorted_wrt (\<lambda>a b. test_score_mean (fst (snd b)) \<le> test_score_mean (fst (snd a))) summ"
    by (simp add: sorted_map split_def)
  have grp: "group_rows out (e, d) = filter (\<lambda>r. estimator r = e \<and> param_draw r = d) out" for e d
    by (simp add: group_rows_def record_key_def)
  have W: "\<forall>(e, rw) \<in> set summ. \<exists>d G.
         G = filter (\<lambda>r. estimator r = e \<and> param_draw r = d) out \<and> G \<noteq> [] \<and>
         fst rw = \<lparr> test_score_mean = agg_mean agg (map test_score G),
                       test_score_std = agg_std agg (map test_score G),
                       train_score_mean = agg_mean agg (map train_score G),
                       train_score_std = agg_std agg (map train_score G),
                       time_mean = agg_mean agg (map time G),
                       time_std = agg_std agg (map time G) \<rparr> \<and>
         map_of pm (e, d) = Some (snd rw) \<and> map_of cvr (e, d) = Some rw \<and>
         (\<forall>d'. (\<exists>r \<in> set out. estimator r = e \<and> param_draw r = d') \<longrightarrow>
            agg_mean agg (map test_score (filter (\<lambda>r. estimator r = e \<and> param_draw r = d') out))
              \<le> test_score_mean (fst rw) \<and>
            (agg_mean agg (map test_score (filter (\<lambda>r. estimator r = e \<and> param_draw r = d') out))
               = test_score_mean (fst rw) \<longrightarrow> d \<le> d'))"
  proof (intro ballI, clarify)
    fix e a b assume "(e, a, b) \<in> set summ"
    then have e: "e \<in> set E" and rw: "(a, b) = row (kst e)"
      unfolding ss summ0_def by auto
    let ?d = "snd (kst e)"
    let ?G = "filter (\<lambda>r. estimator r = e \<and> param_draw r = ?d) out"
    from kst e have kk: "kst e \<in> set K" "fst (kst e) = e"
      and opt: "\<forall>k' \<in> set K. fst k' = e \<longrightarrow> m k' \<le> m (kst e) \<and> (m k' = m (kst e) \<longrightarrow> snd (kst e) \<le> snd k')"
      by auto
    have ke: "kst e = (e, ?d)" using kk(2) by (metis prod.collapse)
    have "(e, ?d) \<in> record_key ` set out" using kk(1) ke Kset by metis
    then have 1: "?G \<noteq> []" by (auto simp: record_key_def filter_empty_conv)
    have ab: "a = aggregate agg (group_rows out (e, ?d))" "b = the (map_of pm (e, ?d))"
      using rw unfolding row_def ke[symmetric] by simp_all
    have 2: "fst (a, b) = \<lparr> test_score_mean = agg_mean agg (map test_score ?G),
                       test_score_std = agg_std agg (map test_score ?G),
                       train_score_mean = agg_mean agg (map train_score ?G),
                       train_score_std = agg_std agg (map train_score ?G),
                       time_mean = agg_mean agg (map time ?G),
                       time_std = agg_std agg (map time ?G) \<rparr>"
      unfolding ab grp by (simp add: aggregate_def)
    have "(e, ?d) \<in> fst ` set pm"
      using \<open>(e, ?d) \<in> record_key ` set out\<close> keys by (auto simp: record_key_def)
    then obtain prm where prm: "map_of pm (e, ?d) = Some prm"
      by (metis domD dom_map_of_conv_image_fst)
    then have 3: "map_of pm (e, ?d) = Some (snd (a, b))" by (simp add: ab)
    have 4: "map_of cvr (e, ?d) = Some (a, b)"
      unfolding rw cvr_def ke[symmetric] using kk(1) by (rule map_of_map_key)
    have tsa: "test_score_mean (fst (a, b)) = m (kst e)"
      unfolding rw by (rule tsm)
    have 5: "\<forall>d'. (\<exists>r \<in> set out. estimator r = e \<and> param_draw r = d') \<longrightarrow>
            agg_mean agg (map test_score (filter (\<lambda>r. estimator r = e \<and> param_draw r = d') out))
              \<le> test_score_mean (fst (a, b)) \<and>
            (agg_mean agg (map test_score (filter (\<lambda>r. estimator r = e \<and> param_draw r = d') out))
               = test_score_mean (fst (a, b)) \<longrightarrow> ?d \<le> d')"
    proof (intro allI impI)
      fix d' assume "\<exists>r \<in> set out. estimator r = e \<and> param_draw r = d'"
      then have "(e, d') \<in> set K" unfolding Kset by (auto simp: record_key_def image_iff)
      with opt have "m (e, d') \<le> m (kst e) \<and> (m (e, d') = m (kst e) \<longrightarrow> snd (kst e) \<le> d')"
        by fastforce
      then show "agg_mean agg (map test_score (filter (\<lambda>r. estimator r = e \<and> param_draw r = d') out))
              \<le> test_score_mean (fst (a, b)) \<and>
            (agg_mean agg (map test_score (filter (\<lambda>r. estimator r = e \<and> param_draw r = d') out))
               = test_score_mean (fst (a, b)) \<longrightarrow> ?d \<le> d')"
        unfolding tsa by (simp add: m_def grp)
    qed
    from 1 2 3 4 5 show "\<exists>d G.
         G = filter (\<lambda>r. estimator r = e \<and> param_draw r = d) out \<and> G \<noteq> [] \<and>
         fst (a, b) = \<lparr> test_score_mean = agg_mean agg (map test_score G),
                       test_score_std = agg_std agg (map test_score G),
                       train_score_mean = agg_mean agg (map train_score G),
                       train_score_std = agg_std agg (map train_score G),
                       time_mean = agg_mean agg (map time G),
                       time_std = agg_std agg (map time G) \<rparr> \<and>
         map_of pm (e, d) = Some (snd (a, b)) \<and> map_of cvr (e, d) = Some (a, b) \<and>
         (\<forall>d'. (\<exists>r \<in> set out. estimator r = e \<and> param_draw r = d') \<longrightarrow>
            agg_mean agg (map test_score (filter (\<lambda>r. estimator r = e \<and> param_draw r = d') out))
              \<le> test_score_mean (fst (a, b)) \<and>
            (agg_mean agg (map test_score (filter (\<lambda>r. estimator r = e \<and> param_draw r = d') out))
               = test_score_mean (fst (a, b)) \<longrightarrow> d \<le> d'))"
      by blast
  qed
  from R D S O W show ?thesis by blast
qed

text \<open>
  The theorem at the eight records of the demonstration, where both draws of \<open>ols-sc\<close>
  have mean test score 2, with the aggregates in exact arithmetic.
\<close>

theorem results_summary_witness:
  "\<exists>cvr summ best. results exact_aggs demo_records demo_pm = Inr (cvr, summ, best) \<and>
     distinct (map fst summ) \<and> fst ` set summ = estimator ` set demo_records \<and>
     sorted_wrt (\<lambda>a b. test_score_mean (fst (snd b)) \<le> test_score_mean (fst (snd a))) summ \<and>
     (\<forall>(e, row) \<in> set summ. \<exists>d G.
         G = filter (\<lambda>r. estimator r = e \<and> param_draw r = d) demo_records \<and> G \<noteq> [] \<and>
         fst row = \<lparr> test_score_mean = agg_mean exact_aggs (map test_score G),
                       test_score_std = agg_std exact_aggs (map test_score G),
                       train_score_mean = agg_mean exact_aggs (map train_score G),
                       train_score_std = agg_std exact_aggs (map train_score G),
                       time_mean = agg_mean exact_aggs (map time G),
                       time_std = agg_std exact_aggs (map time G) \<rparr> \<and>
         map_of demo_pm (e, d) = Some (snd row) \<and> map_of cvr (e, d) = Some row \<and>
         (\<forall>d'. (\<exists>r \<in> set demo_records. estimator r = e \<and> param_draw r = d') \<longrightarrow>
            agg_mean exact_aggs
                (map test_score (filter (\<lambda>r. estimator r = e \<and> param_draw r = d') demo_records))
              \<le> test_score_mean (fst row) \<and>
            (agg_mean exact_aggs
                (map test_score (filter (\<lambda>r. estimator r = e \<and> param_draw r = d') demo_records))
               = test_score_mean (fst row) \<longrightarrow> d \<le> d')))"
proof -
  have ne: "demo_records \<noteq> []" by (simp add: demo_records_def)
  have ks: "\<forall>r \<in> set demo_records. (estimator r, param_draw r) \<in> fst ` set demo_pm"
    by (simp add: demo_records_def mk_record_def demo_pm_def)
  show ?thesis by (rule results_summary[OF ne ks])
qed

subsection \<open>The cached fold table\<close>

lemma evaluate_run_trace:
  assumes "evaluate_run cvf agg fl ev w = (r, ev', w')"
  shows "(trace w' = trace w \<or> (\<exists>d. dout ev = Some d \<and> trace w' = trace w @ [CrossValidate d]))
       \<and> (fl \<and> r = None \<longrightarrow> dout ev' = None)
       \<and> (\<not> (fl \<and> r = None) \<longrightarrow> dout ev' = dout ev)
       \<and> (r = None \<longrightarrow> (\<exists>d. dout ev = Some d \<and> trace w' = trace w @ [CrossValidate d]))"
  using assms unfolding evaluate_run_def
  by (auto simp: Let_def split: prod.splits sum.splits option.splits if_splits)

lemma preprocess_trace:
  assumes "preprocess pf X y ev w = (r, ev', w')"
  shows "trace w' = trace w @ [PreprocessFolds] \<and>
         (r = None \<longrightarrow> (\<exists>d g'. pf (preprocessing ev) X y (cv ev) (shuffle ev) (random_state ev) (gen w) = (Inr d, g') \<and> dout ev' = Some d)) \<and>
         (r \<noteq> None \<longrightarrow> dout ev' = dout ev)"
  using assms unfolding preprocess_def
  by (auto simp: Let_def split: prod.splits sum.splits)

text \<open>
  C6. Whatever a run of \<open>evaluate\<close> returns: with a fold table cached and
  \<open>reset_preprocess\<close> false, the only call it can have made is \<open>cross_validate\<close> on the
  cached table (no preprocessing), a run that completes has made it, and the table stays
  cached unless the run completes with \<open>flush_preprocess\<close>; with \<open>reset_preprocess\<close> true,
  its first call is the preprocessing, and a run that completes has then called
  \<open>cross_validate\<close> on the table that preprocessing returned; a run that completes leaves
  no fold table when \<open>flush_preprocess\<close> is true and leaves one when it is false.
\<close>

theorem fold_table_cache:
  assumes run: "evaluate pf cvf agg X y ests pds n reset fl ev w = (r, ev', w')"
  shows "(dout ev = Some d \<and> \<not> reset \<longrightarrow>
            (trace w' = trace w \<or> trace w' = trace w @ [CrossValidate d]) \<and>
            (r = None \<longrightarrow> trace w' = trace w @ [CrossValidate d]) \<and>
            (\<not> (fl \<and> r = None) \<longrightarrow> dout ev' = Some d))
       \<and> (reset \<longrightarrow> (\<exists>t. trace w' = trace w @ PreprocessFolds # t) \<and>
            (r = None \<longrightarrow> (\<exists>d' g'.
               pf (preprocessing ev) X y (cv ev) (shuffle ev) (random_state ev) (gen w) = (Inr d', g') \<and>
               trace w' = trace w @ [PreprocessFolds, CrossValidate d'])))
       \<and> (r = None \<longrightarrow> (if fl then dout ev' = None else dout ev' \<noteq> None))"
proof -
  let ?ev1 = "ev\<lparr>n_iter := n, estimators_attr := ests, param_dicts_attr := pds\<rparr>"
  show ?thesis
  proof (cases "dout ev = None \<or> reset")
    case False
    then obtain d0 where d0: "dout ev = Some d0" and nr: "\<not> reset" by auto
    from run d0 nr have "evaluate_run cvf agg fl ?ev1 w = (r, ev', w')"
      by (simp add: evaluate_def Let_def)
    from evaluate_run_trace[OF this] d0 nr show ?thesis by auto
  next
    case True
    obtain r1 e1 v1 where q: "preprocess pf X y ?ev1 w = (r1, e1, v1)"
      by (cases "preprocess pf X y ?ev1 w") auto
    note pt = preprocess_trace[OF q]
    show ?thesis
    proof (cases r1)
      case (Some e)
      with run True q have "r = Some e" "w' = v1" by (auto simp: evaluate_def Let_def)
      with pt True show ?thesis by auto
    next
      case None
      with run True q have rr: "evaluate_run cvf agg fl e1 v1 = (r, ev', w')"
        by (auto simp: evaluate_def Let_def)
      from evaluate_run_trace[OF rr] pt None True show ?thesis by auto
    qed
  qed
qed

text \<open>
  The theorem at the demonstration evaluator with a cached table: a run that flushes
  without resetting, and a run that resets without flushing.
\<close>

theorem fold_table_cache_witness:
  "(\<exists>ev'. evaluate folds_stub cv_stub exact_aggs [] [] [(''ols'', ()), (''knn'', ())]
      [(''ols'', [(''alpha'', randint 0 10), (''beta'', randint 0 10)]),
       (''knn'', [(''k'', randint 0 10)])] 3 False True cached_evaluator world0
     = (None, ev', world0\<lparr>trace := [CrossValidate ()]\<rparr>) \<and> dout ev' = None) \<and>
   (\<exists>ev'. evaluate folds_stub cv_stub exact_aggs [] [] [(''ols'', ()), (''knn'', ())]
      [(''ols'', [(''alpha'', randint 0 10), (''beta'', randint 0 10)]),
       (''knn'', [(''k'', randint 0 10)])] 3 True False cached_evaluator world0
     = (None, ev', world0\<lparr>trace := [PreprocessFolds, CrossValidate ()]\<rparr>) \<and>
     dout ev' \<noteq> None)"
proof -
  from evaluate_cached[of exact_aggs "[]" "[]" True] obtain e1 where
    r1: "evaluate folds_stub cv_stub exact_aggs [] [] [(''ols'', ()), (''knn'', ())]
      [(''ols'', [(''alpha'', randint 0 10), (''beta'', randint 0 10)]),
       (''knn'', [(''k'', randint 0 10)])] 3 False True cached_evaluator world0
     = (None, e1, world0\<lparr>trace := [CrossValidate ()]\<rparr>)" by blast
  from fold_table_cache[OF r1, of "()"] have d1: "dout e1 = None" by simp
  from evaluate_reset[of exact_aggs "[]" "[]" False] obtain e2 where
    r2: "evaluate folds_stub cv_stub exact_aggs [] [] [(''ols'', ()), (''knn'', ())]
      [(''ols'', [(''alpha'', randint 0 10), (''beta'', randint 0 10)]),
       (''knn'', [(''k'', randint 0 10)])] 3 True False cached_evaluator world0
     = (None, e2, world0\<lparr>trace := [PreprocessFolds, CrossValidate ()]\<rparr>)" by blast
  from fold_table_cache[OF r2, of "()"] have d2: "dout e2 \<noteq> None" by simp
  from r1 d1 r2 d2 show ?thesis by blast
qed

subsection \<open>Evaluation without preprocessing cases\<close>

lemma fill_draws_length: "fill_draws p ds pd = Inr pd' \<Longrightarrow> length pd' = length pd"
proof (induction ds arbitrary: pd)
  case Nil
  then show ?case by simp
next
  case (Cons a ds)
  obtain i v where a: "a = (i, v)" by (cases a)
  from Cons.prems a have "i < length pd"
    and "fill_draws p ds (pd[i := AList.update p v (pd ! i)]) = Inr pd'"
    by (auto split: if_splits)
  from Cons.IH[OF this(2)] show ?case by simp
qed

lemma fill_params_length:
  "fill_params n rs items pd g = (Inr pd', g') \<Longrightarrow> length pd' = length pd"
proof (induction items arbitrary: pd g)
  case Nil
  then show ?case by simp
next
  case (Cons it items)
  obtain p d where it: "it = (p, d)" by (cases it)
  obtain draws g1 where dr: "rvs d n rs g = (draws, g1)" by (cases "rvs d n rs g")
  from Cons.prems it dr obtain pd1 where
    f: "fill_draws p (enumerate 0 draws) pd = Inr pd1"
    and r: "fill_params n rs items pd1 g1 = (Inr pd', g')"
    by (auto split: sum.splits)
  from Cons.IH[OF r] fill_draws_length[OF f] show ?case by simp
qed

lemma draw_params_length:
  "draw_params ev e g = (Inr pd, g') \<Longrightarrow> length pd = n_iter ev"
  unfolding draw_params_def
  by (auto split: option.splits dest: fill_params_length)

lemma set_update_subset: "set (AList.update k v al) \<subseteq> insert (k, v) (set al)"
  by (induction al) auto

lemma update_not_Nil: "AList.update k v al \<noteq> []"
  by (cases al) auto

lemma draw_all_lengths:
  assumes "draw_all ev L ps g = (Inr ps', g')" "\<forall>(e, pd) \<in> set ps. length pd = n_iter ev"
  shows "(\<forall>(e, pd) \<in> set ps'. length pd = n_iter ev) \<and> (L \<noteq> [] \<or> ps \<noteq> [] \<longrightarrow> ps' \<noteq> [])"
  using assms
proof (induction L arbitrary: ps g)
  case Nil
  then show ?case by simp
next
  case (Cons a L)
  obtain e est where a: "a = (e, est)" by (cases a)
  from Cons.prems(1) a obtain pd g1 where
    dp: "draw_params ev e g = (Inr pd, g1)"
    and r: "draw_all ev L (AList.update e pd ps) g1 = (Inr ps', g')"
    by (auto split: prod.splits sum.splits)
  have "\<forall>(e, pd) \<in> set (AList.update e pd ps). length pd = n_iter ev"
    using set_update_subset[of e pd ps] Cons.prems(2) draw_params_length[OF dp] by auto
  from Cons.IH[OF r this] update_not_Nil[of e pd ps] show ?case by simp
qed

lemma flatten_ests_None:
  assumes "prep = None" "ps \<noteq> []" "\<forall>(e, pd) \<in> set ps. pd \<noteq> []"
  shows "flatten_ests prep ps pm = Inl AttributeError"
proof -
  from assms(2) obtain e pd rest where ps: "ps = (e, pd) # rest" by (cases ps) auto
  with assms(3) obtain x xs where "pd = x # xs" by (cases pd) auto
  with ps assms(1) show ?thesis by simp
qed

lemma flatten_ests_empty:
  "\<forall>(e, pd) \<in> set ps. pd = [] \<Longrightarrow> flatten_ests prep ps pm = Inr pm"
  by (induction ps arbitrary: pm) auto

lemma param_sets_None:
  assumes np: "preprocessing ev = None"
    and dr: "draw_all ev (estimators_attr ev) [] g = (Inr ps, g2)"
  shows "param_sets ev g =
           (if estimators_attr ev \<noteq> [] \<and> 0 < n_iter ev then (Inl AttributeError, g2)
            else (Inr (ps, []), g2))"
proof (cases "estimators_attr ev \<noteq> [] \<and> 0 < n_iter ev")
  case True
  from draw_all_lengths[OF dr] True have
    l: "\<forall>(e, pd) \<in> set ps. length pd = n_iter ev" and ne: "ps \<noteq> []" by auto
  from l True have "\<forall>(e, pd) \<in> set ps. pd \<noteq> []" by auto
  from flatten_ests_None[OF np ne this, of "[]"] dr True show ?thesis
    by (simp add: param_sets_def)
next
  case False
  have "\<forall>(e, pd) \<in> set ps. pd = []"
  proof (cases "estimators_attr ev = []")
    case True
    with dr show ?thesis by simp
  next
    case False
    with \<open>\<not> (estimators_attr ev \<noteq> [] \<and> 0 < n_iter ev)\<close> have "n_iter ev = 0" by simp
    with draw_all_lengths[OF dr] show ?thesis by auto
  qed
  from flatten_ests_empty[OF this, of "preprocessing ev" "[]"] dr False show ?thesis
    by (simp add: param_sets_def)
qed

lemma param_sets_None_cases:
  assumes np: "preprocessing ev = None"
  shows "(\<exists>e g2. param_sets ev g = (Inl e, g2)) \<or> (\<exists>ps g2. param_sets ev g = (Inr (ps, []), g2))"
proof (cases "draw_all ev (estimators_attr ev) [] g")
  case (Pair q g2)
  show ?thesis
  proof (cases q)
    case (Inl e)
    with Pair show ?thesis by (simp add: param_sets_def)
  next
    case (Inr ps)
    with Pair have "draw_all ev (estimators_attr ev) [] g = (Inr ps, g2)" by simp
    from param_sets_None[OF np this] show ?thesis by (simp split: if_splits)
  qed
qed

lemma preprocess_frame:
  assumes "preprocess pf X y ev w = (r, ev', w')"
  shows "preprocessing ev' = preprocessing ev \<and> estimators_attr ev' = estimators_attr ev \<and>
         n_iter ev' = n_iter ev \<and> cv_results_attr ev' = cv_results_attr ev \<and>
         summary_attr ev' = summary_attr ev \<and> best_idx_attr ev' = best_idx_attr ev \<and>
         param_map ev' = param_map ev \<and> param_dicts_attr ev' = param_dicts_attr ev \<and>
         random_state ev' = random_state ev \<and> trace w' = trace w @ [PreprocessFolds]"
  using assms unfolding preprocess_def
  by (auto simp: Let_def split: prod.splits sum.splits)

lemma evaluate_run_None:
  assumes np: "preprocessing ev = None"
    and run: "evaluate_run cvf agg fl ev w = (r, ev', w')"
  shows "(\<exists>e. r = Some e) \<and> cv_results_attr ev' = cv_results_attr ev \<and>
         summary_attr ev' = summary_attr ev \<and> best_idx_attr ev' = best_idx_attr ev"
proof -
  from param_sets_None_cases[OF np, of "gen w"] show ?thesis
  proof
    assume "\<exists>e g2. param_sets ev (gen w) = (Inl e, g2)"
    then obtain e g2 where "param_sets ev (gen w) = (Inl e, g2)" by blast
    with run show ?thesis by (auto simp: evaluate_run_def)
  next
    assume "\<exists>ps g2. param_sets ev (gen w) = (Inr (ps, []), g2)"
    then obtain ps g2 where "param_sets ev (gen w) = (Inr (ps, []), g2)" by blast
    with run show ?thesis
      by (auto simp: evaluate_run_def results_def Let_def split: option.splits sum.splits)
  qed
qed

lemma evaluate_run_None_drawn:
  assumes np: "preprocessing ev = None"
    and run: "evaluate_run cvf agg fl ev w = (r, ev', w')"
    and dr: "draw_all ev (estimators_attr ev) [] (gen w) = (Inr ps, g2)"
    and d: "dout ev = Some d"
  shows "if estimators_attr ev \<noteq> [] \<and> 0 < n_iter ev
         then r = Some AttributeError \<and> param_map ev' = param_map ev \<and> trace w' = trace w
         else param_map ev' = Some [] \<and> trace w' = trace w @ [CrossValidate d] \<and>
              r = Some (case cvf (estimators_attr ev) ps d of Inl e \<Rightarrow> e | Inr out \<Rightarrow> ValueError)"
  using run d unfolding evaluate_run_def param_sets_None[OF np dr]
  by (auto simp: results_def Let_def split: sum.splits)

lemma evaluate_run_None_trace:
  assumes np: "preprocessing ev = None" and ne: "estimators_attr ev \<noteq> []" "0 < n_iter ev"
    and run: "evaluate_run cvf agg fl ev w = (r, ev', w')"
  shows "trace w' = trace w"
proof (cases "draw_all ev (estimators_attr ev) [] (gen w)")
  case (Pair q g2)
  show ?thesis
  proof (cases q)
    case (Inl e)
    with Pair run show ?thesis by (auto simp: evaluate_run_def param_sets_def)
  next
    case (Inr ps)
    with Pair have dr: "draw_all ev (estimators_attr ev) [] (gen w) = (Inr ps, g2)" by simp
    from run ne show ?thesis unfolding evaluate_run_def param_sets_None[OF np dr] by auto
  qed
qed

text \<open>
  C10, as stated, fails. On an evaluator constructed with \<open>preprocessing = None\<close>, a call
  of \<open>evaluate\<close> with no estimators raises, but not from the construction of the parameter
  map and not before cross-validation: the construction iterates over nothing and returns
  the empty map, which is stored; \<open>cross_validate\<close> is called and returns; only then does
  the aggregation of the results raise ValueError on the empty parameter map.
\<close>

theorem evaluate_without_preprocessing_counterexample:
  "evaluate folds_stub cv_none exact_aggs [] [] [] [] 2 False False
     (Evaluator_init None 10 True None :: (nat, unit, unit, unit) evaluator) world0 =
   (Some ValueError,
    (Evaluator_init None 10 True None)
      \<lparr>n_iter := 2, preprocessing_attr := Some None, dout := Some (),
        param_sets_attr := Some [], param_map := Some []\<rparr>,
    \<lparr>gen = 7, trace = [PreprocessFolds, CrossValidate ()]\<rparr>)"
  by (simp add: param_sets_def evaluate_def evaluate_run_def preprocess_def Evaluator_init_def
      folds_stub_def cv_none_def world0_def results_def Let_def)

text \<open>
  C10, amended. On an evaluator with \<open>preprocessing = None\<close>, every call of \<open>evaluate\<close>
  raises an exception and stores no result table. With at least one estimator and
  \<open>n_iter >= 1\<close>, \<open>cross_validate\<close> is not called (the only call made is the preprocessing,
  when it is due), and when the preprocessing and the draws return, the exception is the
  AttributeError of the construction of the parameter map, which is not stored. With no
  estimator or \<open>n_iter = 0\<close>, when the preprocessing and the draws return, the empty
  parameter map is stored, \<open>cross_validate\<close> is called on the fold table, and the exception
  is the one it raises or, when it returns, the ValueError of the aggregation.
\<close>

theorem evaluate_without_preprocessing:
  assumes np: "preprocessing ev = None"
    and run: "evaluate pf cvf agg X y ests pds n reset fl ev w = (r, ev', w')"
  shows "(\<exists>e. r = Some e) \<and>
     cv_results_attr ev' = cv_results_attr ev \<and> summary_attr ev' = summary_attr ev \<and>
     best_idx_attr ev' = best_idx_attr ev \<and>
     (ests \<noteq> [] \<and> 0 < n \<longrightarrow>
        trace w' = trace w @ (if dout ev = None \<or> reset then [PreprocessFolds] else [])) \<and>
     (\<forall>d g1 ps g2.
        ((dout ev = None \<or> reset) \<and>
            pf None X y (cv ev) (shuffle ev) (random_state ev) (gen w) = (Inr d, g1) \<or>
         dout ev = Some d \<and> \<not> reset \<and> g1 = gen w) \<and>
        draw_all (ev\<lparr>n_iter := n, estimators_attr := ests, param_dicts_attr := pds\<rparr>) ests [] g1
          = (Inr ps, g2) \<longrightarrow>
        (if ests \<noteq> [] \<and> 0 < n
         then r = Some AttributeError \<and> param_map ev' = param_map ev
         else param_map ev' = Some [] \<and>
              trace w' = trace w @ (if dout ev = None \<or> reset then [PreprocessFolds] else [])
                           @ [CrossValidate d] \<and>
              r = Some (case cvf ests ps d of Inl e \<Rightarrow> e | Inr out \<Rightarrow> ValueError)))"
proof -
  let ?ev1 = "ev\<lparr>n_iter := n, estimators_attr := ests, param_dicts_attr := pds\<rparr>"
  let ?pre = "if dout ev = None \<or> reset then [PreprocessFolds] else []"
  let ?C = "\<lambda>d g1 ps g2.
        ((dout ev = None \<or> reset) \<and>
            pf None X y (cv ev) (shuffle ev) (random_state ev) (gen w) = (Inr d, g1) \<or>
         dout ev = Some d \<and> \<not> reset \<and> g1 = gen w) \<and>
        draw_all ?ev1 ests [] g1 = (Inr ps, g2) \<longrightarrow>
        (if ests \<noteq> [] \<and> 0 < n
         then r = Some AttributeError \<and> param_map ev' = param_map ev
         else param_map ev' = Some [] \<and>
              trace w' = trace w @ ?pre @ [CrossValidate d] \<and>
              r = Some (case cvf ests ps d of Inl e \<Rightarrow> e | Inr out \<Rightarrow> ValueError))"
  have a1: "preprocessing ?ev1 = None" "estimators_attr ?ev1 = ests" "n_iter ?ev1 = n"
    using np by simp_all
  have "((\<exists>e. r = Some e) \<and> cv_results_attr ev' = cv_results_attr ev \<and>
          summary_attr ev' = summary_attr ev \<and> best_idx_attr ev' = best_idx_attr ev) \<and>
        (ests \<noteq> [] \<and> 0 < n \<longrightarrow> trace w' = trace w @ ?pre) \<and>
        (\<forall>d g1 ps g2. ?C d g1 ps g2)"
  proof (cases "dout ev = None \<or> reset")
    case False
    then obtain d0 where d0: "dout ev = Some d0" and nr: "\<not> reset" by auto
    from run False have rr: "evaluate_run cvf agg fl ?ev1 w = (r, ev', w')"
      by (simp add: evaluate_def Let_def)
    have h: "(\<exists>e. r = Some e) \<and> cv_results_attr ev' = cv_results_attr ev \<and>
          summary_attr ev' = summary_attr ev \<and> best_idx_attr ev' = best_idx_attr ev"
      using evaluate_run_None[OF a1(1) rr] by simp
    have t: "ests \<noteq> [] \<and> 0 < n \<longrightarrow> trace w' = trace w @ ?pre"
      using evaluate_run_None_trace[OF a1(1) _ _ rr] d0 nr by simp
    have c: "?C d g1 ps g2" for d g1 ps g2
    proof (intro impI, elim conjE)
      assume ab: "(dout ev = None \<or> reset) \<and>
            pf None X y (cv ev) (shuffle ev) (random_state ev) (gen w) = (Inr d, g1) \<or>
         dout ev = Some d \<and> \<not> reset \<and> g1 = gen w"
        and dr: "draw_all ?ev1 ests [] g1 = (Inr ps, g2)"
      from ab d0 nr have dd: "d = d0" "g1 = gen w" by auto
      have d1: "dout ?ev1 = Some d" using d0 dd by simp
      have dr1: "draw_all ?ev1 (estimators_attr ?ev1) [] (gen w) = (Inr ps, g2)"
        using dr dd by simp
      from evaluate_run_None_drawn[OF a1(1) rr dr1 d1] d0 nr
      show "if ests \<noteq> [] \<and> 0 < n
         then r = Some AttributeError \<and> param_map ev' = param_map ev
         else param_map ev' = Some [] \<and>
              trace w' = trace w @ ?pre @ [CrossValidate d] \<and>
              r = Some (case cvf ests ps d of Inl e \<Rightarrow> e | Inr out \<Rightarrow> ValueError)"
        by (simp split: if_splits)
    qed
    from h t c show ?thesis by blast
  next
    case True
    obtain r1 e1 v1 where q: "preprocess pf X y ?ev1 w = (r1, e1, v1)"
      by (cases "preprocess pf X y ?ev1 w") auto
    note fr = preprocess_frame[OF q]
    show ?thesis
    proof (cases r1)
      case (Some e)
      with True q run have res: "r = Some e" "ev' = e1" "w' = v1"
        by (auto simp: evaluate_def Let_def)
      from q Some have nopf: "pf None X y (cv ev) (shuffle ev) (random_state ev) (gen w) \<noteq> (Inr d, g1)"
        for d g1
        using np by (auto simp: preprocess_def Let_def split: prod.splits sum.splits)
      have h: "(\<exists>e. r = Some e) \<and> cv_results_attr ev' = cv_results_attr ev \<and>
          summary_attr ev' = summary_attr ev \<and> best_idx_attr ev' = best_idx_attr ev"
        using res fr by simp
      have t: "ests \<noteq> [] \<and> 0 < n \<longrightarrow> trace w' = trace w @ ?pre"
        using res fr True by simp
      have c: "?C d g1 ps g2" for d g1 ps g2
        using nopf True by auto
      from h t c show ?thesis by blast
    next
      case None
      with True q run have rr: "evaluate_run cvf agg fl e1 v1 = (r, ev', w')"
        by (auto simp: evaluate_def Let_def)
      have a2: "preprocessing e1 = None" "estimators_attr e1 = ests" "n_iter e1 = n"
        using fr a1 by simp_all
      have h: "(\<exists>e. r = Some e) \<and> cv_results_attr ev' = cv_results_attr ev \<and>
          summary_attr ev' = summary_attr ev \<and> best_idx_attr ev' = best_idx_attr ev"
        using evaluate_run_None[OF a2(1) rr] fr by simp
      have t: "ests \<noteq> [] \<and> 0 < n \<longrightarrow> trace w' = trace w @ ?pre"
        using evaluate_run_None_trace[OF a2(1) _ _ rr] a2 fr True by simp
      have da: "draw_all e1 ests [] g = draw_all ?ev1 ests [] g" for g
        by (rule draw_all_frame) (simp_all add: fr)
      have c: "?C d g1 ps g2" for d g1 ps g2
      proof (intro impI, elim conjE)
        assume ab: "(dout ev = None \<or> reset) \<and>
            pf None X y (cv ev) (shuffle ev) (random_state ev) (gen w) = (Inr d, g1) \<or>
         dout ev = Some d \<and> \<not> reset \<and> g1 = gen w"
          and dr: "draw_all ?ev1 ests [] g1 = (Inr ps, g2)"
        from ab True have p: "pf None X y (cv ev) (shuffle ev) (random_state ev) (gen w) = (Inr d, g1)"
          by auto
        from q None p np have g: "gen v1 = g1" and d: "dout e1 = Some d"
          by (auto simp: preprocess_def Let_def split: prod.splits sum.splits)
        have dr1: "draw_all e1 (estimators_attr e1) [] (gen v1) = (Inr ps, g2)"
          using dr da a2 g by simp
        from evaluate_run_None_drawn[OF a2(1) rr dr1 d] a2 fr True
        show "if ests \<noteq> [] \<and> 0 < n
         then r = Some AttributeError \<and> param_map ev' = param_map ev
         else param_map ev' = Some [] \<and>
              trace w' = trace w @ ?pre @ [CrossValidate d] \<and>
              r = Some (case cvf ests ps d of Inl e \<Rightarrow> e | Inr out \<Rightarrow> ValueError)"
          by (simp split: if_splits)
      qed
      from h t c show ?thesis by blast
    qed
  qed
  then show ?thesis unfolding conj_assoc .
qed

text \<open>
  The theorem at a freshly constructed evaluator and one estimator: with three draws the
  call raises AttributeError after the preprocessing alone; with no draw it stores the
  empty parameter map, calls \<open>cross_validate\<close> and raises ValueError.
\<close>

theorem evaluate_without_preprocessing_witness:
  "(\<exists>ev' w'. evaluate folds_stub cv_stub exact_aggs [] [] [(''ols'', ())]
        [(''ols'', [(''alpha'', randint 0 10)])] 3 False False
        (Evaluator_init None 10 True None :: (nat, unit, unit, unit) evaluator) world0
      = (Some AttributeError, ev', w') \<and>
      trace w' = [PreprocessFolds] \<and> param_map ev' = None \<and> cv_results_attr ev' = None) \<and>
   (\<exists>ev' w'. evaluate folds_stub cv_stub exact_aggs [] [] [(''ols'', ())]
        [(''ols'', [(''alpha'', randint 0 10)])] 0 False False
        (Evaluator_init None 10 True None :: (nat, unit, unit, unit) evaluator) world0
      = (Some ValueError, ev', w') \<and>
      trace w' = [PreprocessFolds, CrossValidate ()] \<and> param_map ev' = Some [] \<and>
      cv_results_attr ev' = None)"
proof -
  let ?E = "Evaluator_init None 10 True None :: (nat, unit, unit, unit) evaluator"
  let ?ests = "[(''ols'', ())]"
  let ?pds = "[(''ols'', [(''alpha'', randint 0 10)])]"
  have np: "preprocessing ?E = None" by (simp add: Evaluator_init_def)
  have pf: "folds_stub None [] [] (cv ?E) (shuffle ?E) (random_state ?E) (gen world0) = (Inr (), 7)"
    by (simp add: folds_stub_def world0_def)
  have sel: "dout ?E = None" "param_map ?E = None" "cv_results_attr ?E = None" "trace world0 = []"
    by (simp_all add: Evaluator_init_def world0_def)
  have dr: "\<exists>ps g2. draw_all (?E\<lparr>n_iter := k, estimators_attr := ?ests, param_dicts_attr := ?pds\<rparr>)
              ?ests [] 7 = (Inr ps, g2)" for k
    using draw_all_ok[of ?ests "?E\<lparr>n_iter := k, estimators_attr := ?ests, param_dicts_attr := ?pds\<rparr>" "[]" 7]
    by (auto simp: wf_param_dict_def wf_dist_randint)
  have one: "\<exists>ev' w'. evaluate folds_stub cv_stub exact_aggs [] [] ?ests ?pds 3 False False ?E world0
      = (Some AttributeError, ev', w') \<and>
      trace w' = [PreprocessFolds] \<and> param_map ev' = None \<and> cv_results_attr ev' = None"
  proof -
    obtain r ev' w' where run:
      "evaluate folds_stub cv_stub exact_aggs [] [] ?ests ?pds 3 False False ?E world0 = (r, ev', w')"
      by (cases "evaluate folds_stub cv_stub exact_aggs [] [] ?ests ?pds 3 False False ?E world0") auto
    from dr[of 3] obtain ps g2 where d:
      "draw_all (?E\<lparr>n_iter := 3, estimators_attr := ?ests, param_dicts_attr := ?pds\<rparr>) ?ests [] 7
         = (Inr ps, g2)" by blast
    note th = evaluate_without_preprocessing[OF np run]
    from th[THEN conjunct2, THEN conjunct1] sel have c: "cv_results_attr ev' = None" by simp
    from th[THEN conjunct2, THEN conjunct2, THEN conjunct2, THEN conjunct2, THEN conjunct1] sel
    have t: "trace w' = [PreprocessFolds]" by simp
    from th[THEN conjunct2, THEN conjunct2, THEN conjunct2, THEN conjunct2, THEN conjunct2,
            rule_format, of "()" 7 ps g2] pf d sel
    have "r = Some AttributeError \<and> param_map ev' = None" by simp
    with run c t show ?thesis by simp
  qed
  have two: "\<exists>ev' w'. evaluate folds_stub cv_stub exact_aggs [] [] ?ests ?pds 0 False False ?E world0
      = (Some ValueError, ev', w') \<and>
      trace w' = [PreprocessFolds, CrossValidate ()] \<and> param_map ev' = Some [] \<and>
      cv_results_attr ev' = None"
  proof -
    obtain r ev' w' where run:
      "evaluate folds_stub cv_stub exact_aggs [] [] ?ests ?pds 0 False False ?E world0 = (r, ev', w')"
      by (cases "evaluate folds_stub cv_stub exact_aggs [] [] ?ests ?pds 0 False False ?E world0") auto
    from dr[of 0] obtain ps g2 where d:
      "draw_all (?E\<lparr>n_iter := 0, estimators_attr := ?ests, param_dicts_attr := ?pds\<rparr>) ?ests [] 7
         = (Inr ps, g2)" by blast
    note th = evaluate_without_preprocessing[OF np run]
    from th[THEN conjunct2, THEN conjunct1] sel have c: "cv_results_attr ev' = None" by simp
    from th[THEN conjunct2, THEN conjunct2, THEN conjunct2, THEN conjunct2, THEN conjunct2,
            rule_format, of "()" 7 ps g2] pf d sel
    have "param_map ev' = Some [] \<and> trace w' = [PreprocessFolds, CrossValidate ()] \<and>
          r = Some ValueError" by (simp add: cv_stub_def)
    with run c show ?thesis by simp
  qed
  from one two show ?thesis by (rule conjI)
qed

subsection \<open>The out-of-fold matrix of the scenario\<close>

lemma upt_6: "[0..<6] = [0, 1, 2, 3, 4, 5]"
  by code_simp

lemma upt_3: "[0..<3] = [0, 1, 2]"
  by code_simp

lemma fold_plan_6_3:
  "fold_plan [0, 1, 2, 3, 4, 5] 3 =
     [\<lparr>train_rows = [2, 3, 4, 5], test_rows = [0, 1]\<rparr>,
      \<lparr>train_rows = [0, 1, 4, 5], test_rows = [2, 3]\<rparr>,
      \<lparr>train_rows = [0, 1, 2, 3], test_rows = [4, 5]\<rparr>]"
  by (simp add: fold_plan_def fold_sizes_def upt_3)

lemma zeros_6_2: "zeros 6 2 = [[0, 0], [0, 0], [0, 0], [0, 0], [0, 0], [0, 0]]"
  by (simp add: zeros_def eval_nat_numeral)

lemma run_scenario:
  "run [(''no'', [noop_step])] [x0, x1, x2, x3, x4, x5] [y0, y1, y2, y3, y4, y5]
       (fold_plan [0, 1, 2, 3, 4, 5] 3) =
   Inr [((''no'', 0), \<lparr>train_in = [x2, x3, x4, x5], train_out = [y2, y3, y4, y5],
                       test_in = [x0, x1], test_out = [y0, y1], test_row_positions = [0, 1]\<rparr>),
        ((''no'', 1), \<lparr>train_in = [x0, x1, x4, x5], train_out = [y0, y1, y4, y5],
                       test_in = [x2, x3], test_out = [y2, y3], test_row_positions = [2, 3]\<rparr>),
        ((''no'', 2), \<lparr>train_in = [x0, x1, x2, x3], train_out = [y0, y1, y2, y3],
                       test_in = [x4, x5], test_out = [y4, y5], test_row_positions = [4, 5]\<rparr>)]"
  unfolding fold_plan_6_3 by (simp add: preprocess_fold_def rows_at_def noop_step_def)

lemma layer_fit_scenario:
  assumes "est_fit e1 [x2, x3, x4, x5] [y2, y3, y4, y5] = Some m10"
    and "est_fit e1 [x0, x1, x4, x5] [y0, y1, y4, y5] = Some m11"
    and "est_fit e1 [x0, x1, x2, x3] [y0, y1, y2, y3] = Some m12"
    and "est_fit e2 [x2, x3, x4, x5] [y2, y3, y4, y5] = Some m20"
    and "est_fit e2 [x0, x1, x4, x5] [y0, y1, y4, y5] = Some m21"
    and "est_fit e2 [x0, x1, x2, x3] [y0, y1, y2, y3] = Some m22"
    and "est_fit e1 [x0, x1, x2, x3, x4, x5] [y0, y1, y2, y3, y4, y5] = Some p1"
    and "est_fit e2 [x0, x1, x2, x3, x4, x5] [y0, y1, y2, y3, y4, y5] = Some p2"
  shows "layer_fit (scenario_layer e1 e2) [x0, x1, x2, x3, x4, x5] [y0, y1, y2, y3, y4, y5] =
     Inr ([[est_predict e1 m10 x0, est_predict e2 m20 x0],
           [est_predict e1 m10 x1, est_predict e2 m20 x1],
           [est_predict e1 m11 x2, est_predict e2 m21 x2],
           [est_predict e1 m11 x3, est_predict e2 m21 x3],
           [est_predict e1 m12 x4, est_predict e2 m22 x4],
           [est_predict e1 m12 x5, est_predict e2 m22 x5]],
          \<lparr> fitted_folds = [((''no'', ''est-1''), [m10, m11, m12]),
                             ((''no'', ''est-2''), [m20, m21, m22])],
            production_chain = [(''no'', [\<lambda>Z. Some Z])],
            production_model = [((''no'', ''est-1''), p1), ((''no'', ''est-2''), p2)] \<rparr>)"
proof -
  have sel: "layer_folds (scenario_layer e1 e2) = 3"
    "layer_cases (scenario_layer e1 e2) = [(''no'', [noop_step])]"
    "layer_pairs (scenario_layer e1 e2) = [((''no'', ''est-1''), e1), ((''no'', ''est-2''), e2)]"
    by (simp_all add: scenario_layer_def)
  have len: "length [x0, x1, x2, x3, x4, x5] = 6" "length [y0, y1, y2, y3, y4, y5] = 6"
    "length [((''no'', ''est-1''), e1), ((''no'', ''est-2''), e2)] = 2"
    by simp_all
  have t: "run [(''no'', [noop_step])] [x0, x1, x2, x3, x4, x5] [y0, y1, y2, y3, y4, y5]
             (fold_plan [0..<6] 3)
     = Inr [((''no'', 0), \<lparr>train_in = [x2, x3, x4, x5], train_out = [y2, y3, y4, y5],
                       test_in = [x0, x1], test_out = [y0, y1], test_row_positions = [0, 1]\<rparr>),
        ((''no'', 1), \<lparr>train_in = [x0, x1, x4, x5], train_out = [y0, y1, y4, y5],
                       test_in = [x2, x3], test_out = [y2, y3], test_row_positions = [2, 3]\<rparr>),
        ((''no'', 2), \<lparr>train_in = [x0, x1, x2, x3], train_out = [y0, y1, y2, y3],
                       test_in = [x4, x5], test_out = [y4, y5], test_row_positions = [4, 5]\<rparr>)]"
    unfolding upt_6 by (rule run_scenario)
  show ?thesis
    unfolding layer_fit_def sel len t zeros_6_2
    by (simp add: assms noop_step_def eval_nat_numeral)
qed

lemma length_6: "length xs = 6 \<Longrightarrow> \<exists>a b c d e f. xs = [a, b, c, d, e, f]"
  by (auto simp: eval_nat_numeral length_Suc_conv)

lemma ground_truth_scenario:
  assumes "est_fit e1 [x2, x3, x4, x5] [y2, y3, y4, y5] = Some m10"
    and "est_fit e1 [x0, x1, x4, x5] [y0, y1, y4, y5] = Some m11"
    and "est_fit e1 [x0, x1, x2, x3] [y0, y1, y2, y3] = Some m12"
    and "est_fit e2 [x2, x3, x4, x5] [y2, y3, y4, y5] = Some m20"
    and "est_fit e2 [x0, x1, x4, x5] [y0, y1, y4, y5] = Some m21"
    and "est_fit e2 [x0, x1, x2, x3] [y0, y1, y2, y3] = Some m22"
  shows "ground_truth_fit [e1, e2] (fold_plan [0..<6] 3)
           [x0, x1, x2, x3, x4, x5] [y0, y1, y2, y3, y4, y5] =
     map (map Some)
         [[est_predict e1 m10 x0, est_predict e2 m20 x0],
           [est_predict e1 m10 x1, est_predict e2 m20 x1],
           [est_predict e1 m11 x2, est_predict e2 m21 x2],
           [est_predict e1 m11 x3, est_predict e2 m21 x3],
           [est_predict e1 m12 x4, est_predict e2 m22 x4],
           [est_predict e1 m12 x5, est_predict e2 m22 x5]]"
  unfolding upt_6 fold_plan_6_3
  by (simp add: ground_truth_fit_def rows_at_def assms)

text \<open>
  C1. In the scenario of section 8 (six samples, three folds, one case with a no-op step,
  two estimators that fit), \<open>Layer.fit\<close> and a container of that one layer return a matrix
  of six rows. The fold plan is rows 0-1, 2-3 and 4-5 as test partitions, each with the
  other four rows as train partition; for every fold and every row of its test partition,
  the row is not in the train partition and its two predictions are those of the
  instances of the two estimators fitted on the train partition of that fold. The matrix
  equals the reference computed fold by fold.
\<close>

theorem layer_fit_out_of_fold:
  assumes lx: "length X = 6" and ly: "length y = 6"
    and f1: "\<forall>A b. est_fit e1 A b \<noteq> None" and f2: "\<forall>A b. est_fit e2 A b \<noteq> None"
  shows "\<exists>P st. layer_fit (scenario_layer e1 e2) X y = Inr (P, st) \<and>
     container_fit [scenario_layer e1 e2] X y = Inr (P, [st]) \<and> length P = 6 \<and>
     fold_plan [0..<6] 3 =
       [\<lparr>train_rows = [2, 3, 4, 5], test_rows = [0, 1]\<rparr>,
        \<lparr>train_rows = [0, 1, 4, 5], test_rows = [2, 3]\<rparr>,
        \<lparr>train_rows = [0, 1, 2, 3], test_rows = [4, 5]\<rparr>] \<and>
     (\<forall>f \<in> set (fold_plan [0..<6] 3). \<forall>i \<in> set (test_rows f).
        i \<notin> set (train_rows f) \<and>
        (\<exists>m1 m2.
           est_fit e1 (rows_at X (train_rows f)) (rows_at y (train_rows f)) = Some m1 \<and>
           est_fit e2 (rows_at X (train_rows f)) (rows_at y (train_rows f)) = Some m2 \<and>
           P ! i = [est_predict e1 m1 (X ! i), est_predict e2 m2 (X ! i)])) \<and>
     map (map Some) P = ground_truth_fit [e1, e2] (fold_plan [0..<6] 3) X y"
proof -
  from length_6[OF lx] obtain x0 x1 x2 x3 x4 x5 where X: "X = [x0, x1, x2, x3, x4, x5]" by blast
  from length_6[OF ly] obtain y0 y1 y2 y3 y4 y5 where y: "y = [y0, y1, y2, y3, y4, y5]" by blast
  from f1 obtain m10 m11 m12 p1 where m1:
    "est_fit e1 [x2, x3, x4, x5] [y2, y3, y4, y5] = Some m10"
    "est_fit e1 [x0, x1, x4, x5] [y0, y1, y4, y5] = Some m11"
    "est_fit e1 [x0, x1, x2, x3] [y0, y1, y2, y3] = Some m12"
    "est_fit e1 [x0, x1, x2, x3, x4, x5] [y0, y1, y2, y3, y4, y5] = Some p1"
    by (metis not_None_eq)
  from f2 obtain m20 m21 m22 p2 where m2:
    "est_fit e2 [x2, x3, x4, x5] [y2, y3, y4, y5] = Some m20"
    "est_fit e2 [x0, x1, x4, x5] [y0, y1, y4, y5] = Some m21"
    "est_fit e2 [x0, x1, x2, x3] [y0, y1, y2, y3] = Some m22"
    "est_fit e2 [x0, x1, x2, x3, x4, x5] [y0, y1, y2, y3, y4, y5] = Some p2"
    by (metis not_None_eq)
  let ?P = "[[est_predict e1 m10 x0, est_predict e2 m20 x0],
           [est_predict e1 m10 x1, est_predict e2 m20 x1],
           [est_predict e1 m11 x2, est_predict e2 m21 x2],
           [est_predict e1 m11 x3, est_predict e2 m21 x3],
           [est_predict e1 m12 x4, est_predict e2 m22 x4],
           [est_predict e1 m12 x5, est_predict e2 m22 x5]]"
  let ?st = "\<lparr> fitted_folds = [((''no'', ''est-1''), [m10, m11, m12]),
                             ((''no'', ''est-2''), [m20, m21, m22])],
            production_chain = [(''no'', [\<lambda>Z. Some Z])],
            production_model = [((''no'', ''est-1''), p1), ((''no'', ''est-2''), p2)] \<rparr>"
  have R: "layer_fit (scenario_layer e1 e2) X y = Inr (?P, ?st)"
    unfolding X y by (rule layer_fit_scenario[OF m1(1,2,3) m2(1,2,3) m1(4) m2(4)])
  have C: "container_fit [scenario_layer e1 e2] X y = Inr (?P, [?st])"
    using R by simp
  have L: "length ?P = 6" by simp
  have F: "fold_plan [0..<6] 3 =
       [\<lparr>train_rows = [2, 3, 4, 5], test_rows = [0, 1]\<rparr>,
        \<lparr>train_rows = [0, 1, 4, 5], test_rows = [2, 3]\<rparr>,
        \<lparr>train_rows = [0, 1, 2, 3], test_rows = [4, 5]\<rparr>]"
    unfolding upt_6 by (rule fold_plan_6_3)
  have O: "\<forall>f \<in> set (fold_plan [0..<6] 3). \<forall>i \<in> set (test_rows f).
        i \<notin> set (train_rows f) \<and>
        (\<exists>m1 m2.
           est_fit e1 (rows_at X (train_rows f)) (rows_at y (train_rows f)) = Some m1 \<and>
           est_fit e2 (rows_at X (train_rows f)) (rows_at y (train_rows f)) = Some m2 \<and>
           ?P ! i = [est_predict e1 m1 (X ! i), est_predict e2 m2 (X ! i)])"
    unfolding F X y by (simp add: rows_at_def m1 m2)
  have G: "map (map Some) ?P = ground_truth_fit [e1, e2] (fold_plan [0..<6] 3) X y"
    unfolding X y by (rule ground_truth_scenario[OF m1(1,2,3) m2(1,2,3), symmetric])
  from R C L F O G show ?thesis by blast
qed

text \<open>The theorem at six samples of two features and two concrete estimators.\<close>

theorem layer_fit_out_of_fold_witness:
  "\<exists>P st. layer_fit (scenario_layer label_sum_estimator feature_sum_estimator) demo_X demo_y
       = Inr (P, st) \<and>
     container_fit [scenario_layer label_sum_estimator feature_sum_estimator] demo_X demo_y
       = Inr (P, [st]) \<and> length P = 6 \<and>
     fold_plan [0..<6] 3 =
       [\<lparr>train_rows = [2, 3, 4, 5], test_rows = [0, 1]\<rparr>,
        \<lparr>train_rows = [0, 1, 4, 5], test_rows = [2, 3]\<rparr>,
        \<lparr>train_rows = [0, 1, 2, 3], test_rows = [4, 5]\<rparr>] \<and>
     (\<forall>f \<in> set (fold_plan [0..<6] 3). \<forall>i \<in> set (test_rows f).
        i \<notin> set (train_rows f) \<and>
        (\<exists>m1 m2.
           est_fit label_sum_estimator (rows_at demo_X (train_rows f))
             (rows_at demo_y (train_rows f)) = Some m1 \<and>
           est_fit feature_sum_estimator (rows_at demo_X (train_rows f))
             (rows_at demo_y (train_rows f)) = Some m2 \<and>
           P ! i = [est_predict label_sum_estimator m1 (demo_X ! i),
                    est_predict feature_sum_estimator m2 (demo_X ! i)])) \<and>
     map (map Some) P =
       ground_truth_fit [label_sum_estimator, feature_sum_estimator] (fold_plan [0..<6] 3)
         demo_X demo_y"
  by (rule layer_fit_out_of_fold)
     (simp_all add: demo_X_def demo_y_def label_sum_estimator_def feature_sum_estimator_def)

subsection \<open>Prediction with the production instances\<close>

lemma scatter_col_nth:
  "k + length vs \<le> length P \<Longrightarrow>
   length (scatter_col j [k..<k + length vs] vs P) = length P \<and>
   (\<forall>i<length P. scatter_col j [k..<k + length vs] vs P ! i =
      (if k \<le> i \<and> i < k + length vs then (P ! i)[j := vs ! (i - k)] else P ! i))"
proof (induction vs arbitrary: k P)
  case Nil
  then show ?case by auto
next
  case (Cons v vs)
  let ?P1 = "P[k := (P ! k)[j := v]]"
  from Cons.prems have k: "k < length P" by simp
  have "k < k + length (v # vs)" by simp
  from upt_conv_Cons[OF this]
  have up: "[k..<k + length (v # vs)] = k # [Suc k..<Suc k + length vs]" by simp
  have step: "scatter_col j [k..<k + length (v # vs)] (v # vs) P =
              scatter_col j [Suc k..<Suc k + length vs] vs ?P1"
    unfolding up using k by simp
  from Cons.prems have "Suc k + length vs \<le> length ?P1" by simp
  from Cons.IH[OF this] have
    l: "length (scatter_col j [Suc k..<Suc k + length vs] vs ?P1) = length ?P1"
    and c: "\<forall>i<length ?P1. scatter_col j [Suc k..<Suc k + length vs] vs ?P1 ! i =
      (if Suc k \<le> i \<and> i < Suc k + length vs then (?P1 ! i)[j := vs ! (i - Suc k)] else ?P1 ! i)"
    by blast+
  have "\<forall>i<length P. scatter_col j [k..<k + length (v # vs)] (v # vs) P ! i =
      (if k \<le> i \<and> i < k + length (v # vs) then (P ! i)[j := (v # vs) ! (i - k)] else P ! i)"
  proof (intro allI impI)
    fix i assume i: "i < length P"
    show "scatter_col j [k..<k + length (v # vs)] (v # vs) P ! i =
      (if k \<le> i \<and> i < k + length (v # vs) then (P ! i)[j := (v # vs) ! (i - k)] else P ! i)"
    proof (cases "i = k")
      case True
      then show ?thesis unfolding step using c i by simp
    next
      case False
      then show ?thesis unfolding step using c i by (auto simp: nth_Cons')
    qed
  qed
  moreover have "length (scatter_col j [k..<k + length (v # vs)] (v # vs) P) = length P"
    unfolding step using l by simp
  ultimately show ?case by blast
qed

lemma scatter_col_all:
  assumes "length vs = length P"
  shows "scatter_col j [0..<length P] vs P = map (\<lambda>(row, v). row[j := v]) (zip P vs)"
proof -
  from assms have "0 + length vs \<le> length P" by simp
  from scatter_col_nth[OF this, of j] assms show ?thesis
    by (intro nth_equalityI) auto
qed

lemma foldl_update_cells:
  "k + length cs \<le> length row \<Longrightarrow>
   foldl (\<lambda>r (j, c). r[j := c]) row (zip [k..<k + length cs] cs) =
     take k row @ cs @ drop (k + length cs) row"
proof (induction cs arbitrary: k row)
  case Nil
  then show ?case by simp
next
  case (Cons c cs)
  have "k < k + length (c # cs)" by simp
  from upt_conv_Cons[OF this]
  have up: "[k..<k + length (c # cs)] = k # [Suc k..<Suc k + length cs]" by simp
  from Cons.prems have k: "k < length row" and "Suc k + length cs \<le> length (row[k := c])"
    by simp_all
  from Cons.IH[OF this(2)] have
    "foldl (\<lambda>r (j, c). r[j := c]) (row[k := c]) (zip [Suc k..<Suc k + length cs] cs) =
       take (Suc k) (row[k := c]) @ cs @ drop (Suc k + length cs) (row[k := c])" .
  also have "take (Suc k) (row[k := c]) = take k row @ [c]"
    using k by (simp add: take_Suc_conv_app_nth)
  also have "drop (Suc k + length cs) (row[k := c]) = drop (k + length (c # cs)) row"
    by simp
  finally show ?case unfolding up by simp
qed

lemma predict_pairs_ok:
  assumes "\<forall>((c, e), est) \<in> set ps. predict_col st c e est X' = Inr (colf ((c, e), est)) \<and>
             length (colf ((c, e), est)) = length X'"
    and "length P = length X'"
  shows "predict_pairs st (enumerate k ps) X' P =
     Inr (map (\<lambda>i. foldl (\<lambda>r (j, c). r[j := c]) (P ! i)
                     (zip [k..<k + length ps] (map (\<lambda>p. colf p ! i) ps))) [0..<length X'])"
  using assms
proof (induction ps arbitrary: k P)
  case Nil
  then show ?case using map_nth[of P] by simp
next
  case (Cons p ps)
  obtain c e est where p: "p = ((c, e), est)" by (metis prod.collapse)
  from Cons.prems(1) p have col: "predict_col st c e est X' = Inr (colf p)"
    and lc: "length (colf p) = length X'" by auto
  let ?P1 = "scatter_col k [0..<length X'] (colf p) P"
  have P1: "?P1 = map (\<lambda>(row, v). row[k := v]) (zip P (colf p))"
    using scatter_col_all[of "colf p" P k] lc Cons.prems(2) by simp
  then have l1: "length ?P1 = length X'" using lc Cons.prems(2) by simp
  have pre: "\<forall>((c, e), est) \<in> set ps. predict_col st c e est X' = Inr (colf ((c, e), est)) \<and>
             length (colf ((c, e), est)) = length X'"
    using Cons.prems(1) by simp
  have "k < k + length (p # ps)" by simp
  from upt_conv_Cons[OF this]
  have up: "[k..<k + length (p # ps)] = k # [Suc k..<Suc k + length ps]" by simp
  have "predict_pairs st (enumerate k (p # ps)) X' P = predict_pairs st (enumerate (Suc k) ps) X' ?P1"
    using col p by simp
  also have "\<dots> = Inr (map (\<lambda>i. foldl (\<lambda>r (j, c). r[j := c]) (?P1 ! i)
                     (zip [Suc k..<Suc k + length ps] (map (\<lambda>p. colf p ! i) ps))) [0..<length X'])"
    by (rule Cons.IH[OF pre l1])
  also have "map (\<lambda>i. foldl (\<lambda>r (j, c). r[j := c]) (?P1 ! i)
                     (zip [Suc k..<Suc k + length ps] (map (\<lambda>p. colf p ! i) ps))) [0..<length X']
     = map (\<lambda>i. foldl (\<lambda>r (j, c). r[j := c]) (P ! i)
                     (zip [k..<k + length (p # ps)] (map (\<lambda>p. colf p ! i) (p # ps)))) [0..<length X']"
  proof (rule map_cong[OF refl])
    fix i assume "i \<in> set [0..<length X']"
    then have i: "i < length X'" by simp
    then have "?P1 ! i = (P ! i)[k := colf p ! i]"
      unfolding P1 using lc Cons.prems(2) by simp
    then show "foldl (\<lambda>r (j, c). r[j := c]) (?P1 ! i)
                     (zip [Suc k..<Suc k + length ps] (map (\<lambda>p. colf p ! i) ps))
        = foldl (\<lambda>r (j, c). r[j := c]) (P ! i)
                     (zip [k..<k + length (p # ps)] (map (\<lambda>p. colf p ! i) (p # ps)))"
      unfolding up by simp
  qed
  finally show ?case .
qed

lemma predict_pairs_zeros:
  assumes "\<forall>((c, e), est) \<in> set ps. predict_col st c e est X' = Inr (colf ((c, e), est)) \<and>
             length (colf ((c, e), est)) = length X'"
  shows "predict_pairs st (enumerate 0 ps) X' (zeros (length X') (length ps)) =
     Inr (map (\<lambda>i. map (\<lambda>p. colf p ! i) ps) [0..<length X'])"
proof -
  have l: "length (zeros (length X') (length ps)) = length X'" by (simp add: zeros_def)
  have "map (\<lambda>i. foldl (\<lambda>r (j, c). r[j := c]) (zeros (length X') (length ps) ! i)
                     (zip [0..<0 + length ps] (map (\<lambda>p. colf p ! i) ps))) [0..<length X']
      = map (\<lambda>i. map (\<lambda>p. colf p ! i) ps) [0..<length X']"
  proof (rule map_cong[OF refl])
    fix i assume "i \<in> set [0..<length X']"
    then have i: "i < length X'" by simp
    let ?cs = "map (\<lambda>p. colf p ! i) ps"
    have z: "zeros (length X') (length ps) ! i = replicate (length ?cs) 0"
      using i by (simp add: zeros_def)
    have "0 + length ?cs \<le> length (replicate (length ?cs) (0::real))" by simp
    from foldl_update_cells[OF this]
    show "foldl (\<lambda>r (j, c). r[j := c]) (zeros (length X') (length ps) ! i)
                     (zip [0..<0 + length ps] ?cs) = ?cs"
      unfolding z by simp
  qed
  with predict_pairs_ok[OF assms l, of 0] show ?thesis by simp
qed

lemma production_chains_map_of:
  "fit_production_chains cases X = Inr pch \<Longrightarrow>
   map_of pch c = Option.bind (map_of cases c) (\<lambda>steps. fit_chain steps X)"
proof (induction cases arbitrary: pch)
  case Nil
  then show ?case by simp
next
  case (Cons a cases)
  obtain c0 steps0 where a: "a = (c0, steps0)" by (cases a)
  from Cons.prems a obtain chain0 pch' where
    f: "fit_chain steps0 X = Some chain0" and r: "fit_production_chains cases X = Inr pch'"
    and p: "pch = (c0, chain0) # pch'"
    by (auto split: option.splits sum.splits)
  from Cons.IH[OF r] a f p show ?case by simp
qed

lemma production_models_map_of:
  assumes "fit_production_models pch pairs X y = Inr models" "distinct (map fst pairs)"
  shows "map fst models = map fst pairs \<and>
    (\<forall>((c, e), est) \<in> set pairs. \<exists>chain Z m.
       map_of pch c = Some chain \<and> apply_chain chain X = Some Z \<and>
       est_fit est Z y = Some m \<and> map_of models (c, e) = Some m)"
  using assms
proof (induction pairs arbitrary: models)
  case Nil
  then show ?case by simp
next
  case (Cons a pairs)
  obtain c0 e0 est0 where a: "a = ((c0, e0), est0)" by (metis prod.collapse)
  from Cons.prems(1) a obtain chain0 Z0 m0 models' where
    c: "map_of pch c0 = Some chain0" and z: "apply_chain chain0 X = Some Z0"
    and m: "est_fit est0 Z0 y = Some m0"
    and r: "fit_production_models pch pairs X y = Inr models'"
    and md: "models = ((c0, e0), m0) # models'"
    by (auto split: option.splits sum.splits)
  from Cons.prems(2) a have d: "distinct (map fst pairs)" and n: "(c0, e0) \<notin> fst ` set pairs"
    by auto
  from Cons.IH[OF r d] have
    k: "map fst models' = map fst pairs"
    and ih: "\<forall>((c, e), est) \<in> set pairs. \<exists>chain Z m.
       map_of pch c = Some chain \<and> apply_chain chain X = Some Z \<and>
       est_fit est Z y = Some m \<and> map_of models' (c, e) = Some m"
    by blast+
  have "\<forall>((c, e), est) \<in> set (a # pairs). \<exists>chain Z m.
       map_of pch c = Some chain \<and> apply_chain chain X = Some Z \<and>
       est_fit est Z y = Some m \<and> map_of models (c, e) = Some m"
  proof (intro ballI, clarify)
    fix c e est assume mem: "((c, e), est) \<in> set (a # pairs)"
    show "\<exists>chain Z m. map_of pch c = Some chain \<and> apply_chain chain X = Some Z \<and>
       est_fit est Z y = Some m \<and> map_of models (c, e) = Some m"
    proof (cases "((c, e), est) = a")
      case True
      with a c z m md show ?thesis by auto
    next
      case False
      with mem have mp: "((c, e), est) \<in> set pairs" by simp
      then have "(c, e) \<noteq> (c0, e0)" using n by force
      with ih mp md show ?thesis by auto
    qed
  qed
  with k md a show ?case by simp
qed

lemma layer_fit_production:
  assumes "layer_fit L X y = Inr (P, st)"
  shows "fit_production_chains (layer_cases L) X = Inr (production_chain st) \<and>
         fit_production_models (production_chain st) (layer_pairs L) X y = Inr (production_model st)"
  using assms unfolding layer_fit_def
  by (auto split: if_splits sum.splits prod.splits)

lemma predict_from_production:
  assumes pc: "fit_production_chains cases X = Inr (production_chain st)"
    and pm: "fit_production_models (production_chain st) pairs X y = Inr (production_model st)"
    and dis: "distinct (map fst pairs)"
    and rows: "\<forall>((c, e), est) \<in> set pairs. \<forall>chain. map_of (production_chain st) c = Some chain \<longrightarrow>
                 (\<exists>Z'. apply_chain chain X' = Some Z' \<and> length Z' = length X')"
  shows "\<exists>Q. predict_pairs st (enumerate 0 pairs) X' (zeros (length X') (length pairs)) = Inr Q \<and>
             map (map Some) Q = ground_truth_predict cases pairs X y X'"
proof -
  define colf :: "(string \<times> string) \<times> 'a estimator \<Rightarrow> real list" where
    "colf = (\<lambda>((c, e), est). map (est_predict est (the (map_of (production_model st) (c, e))))
               (the (apply_chain (the (map_of (production_chain st) c)) X')))"
  have facts: "\<exists>steps chain Z m Z'. map_of cases c = Some steps \<and> fit_chain steps X = Some chain \<and>
       map_of (production_chain st) c = Some chain \<and>
       apply_chain chain X = Some Z \<and> est_fit est Z y = Some m \<and>
       map_of (production_model st) (c, e) = Some m \<and>
       apply_chain chain X' = Some Z' \<and> length Z' = length X' \<and>
       colf ((c, e), est) = map (est_predict est m) Z'"
    if mem: "((c, e), est) \<in> set pairs" for c e est
  proof -
    from production_models_map_of[OF pm dis] mem obtain chain Z m where
      c: "map_of (production_chain st) c = Some chain" and z: "apply_chain chain X = Some Z"
      and m: "est_fit est Z y = Some m" and mm: "map_of (production_model st) (c, e) = Some m"
      by fastforce
    from rows mem c obtain Z' where z': "apply_chain chain X' = Some Z'" "length Z' = length X'"
      by fastforce
    have "Option.bind (map_of cases c) (\<lambda>steps. fit_chain steps X) = Some chain"
      using production_chains_map_of[OF pc, of c] c by simp
    then obtain steps where
      s: "map_of cases c = Some steps" "fit_chain steps X = Some chain"
      by (auto simp: bind_eq_Some_conv)
    have "colf ((c, e), est) = map (est_predict est m) Z'"
      by (simp add: colf_def c mm z')
    with s c z m mm z' show ?thesis by blast
  qed
  have cols: "\<forall>((c, e), est) \<in> set pairs. predict_col st c e est X' = Inr (colf ((c, e), est)) \<and>
             length (colf ((c, e), est)) = length X'"
  proof (intro ballI, clarify)
    fix c e est assume "((c, e), est) \<in> set pairs"
    from facts[OF this] show "predict_col st c e est X' = Inr (colf ((c, e), est)) \<and>
             length (colf ((c, e), est)) = length X'"
      by (auto simp: predict_col_def)
  qed
  let ?Q = "map (\<lambda>i. map (\<lambda>p. colf p ! i) pairs) [0..<length X']"
  have R: "predict_pairs st (enumerate 0 pairs) X' (zeros (length X') (length pairs)) = Inr ?Q"
    by (rule predict_pairs_zeros[OF cols])
  define cellf where "cellf = (\<lambda>i. \<lambda>((c, e :: string), est :: 'a estimator).
           Option.bind (map_of cases c) (\<lambda>steps.
           Option.bind (fit_chain steps X) (\<lambda>chain.
           Option.bind (apply_chain chain X) (\<lambda>Z.
           Option.bind (est_fit est Z y) (\<lambda>m.
           map_option (\<lambda>Z'. est_predict est m (Z' ! i)) (apply_chain chain X'))))))"
  have gt: "ground_truth_predict cases pairs X y X' = map (\<lambda>i. map (cellf i) pairs) [0..<length X']"
    by (simp add: ground_truth_predict_def cellf_def)
  have cell: "Some (colf p ! i) = cellf i p" if "i < length X'" "p \<in> set pairs" for i p
  proof -
    obtain c e est where pe: "p = ((c, e), est)" by (metis prod.collapse)
    from facts[of c e est] that(2) pe obtain steps chain Z m Z' where
      "map_of cases c = Some steps" "fit_chain steps X = Some chain"
      "apply_chain chain X = Some Z" "est_fit est Z y = Some m"
      "apply_chain chain X' = Some Z'" "length Z' = length X'"
      "colf ((c, e), est) = map (est_predict est m) Z'"
      by blast
    with that(1) pe show ?thesis by (simp add: cellf_def)
  qed
  have "map (map Some) ?Q = map (\<lambda>i. map (\<lambda>p. Some (colf p ! i)) pairs) [0..<length X']"
    by (simp add: o_def)
  also have "\<dots> = map (\<lambda>i. map (cellf i) pairs) [0..<length X']"
    using cell by (intro map_cong refl) auto
  finally have G: "map (map Some) ?Q = ground_truth_predict cases pairs X y X'"
    unfolding gt .
  from R G show ?thesis by blast
qed

lemma layer_fit_scenario_state:
  assumes lx: "length X = 6" and ly: "length y = 6"
    and f1: "\<forall>A b. est_fit e1 A b \<noteq> None" and f2: "\<forall>A b. est_fit e2 A b \<noteq> None"
  shows "\<exists>P st. layer_fit (scenario_layer e1 e2) X y = Inr (P, st) \<and>
           production_chain st = [(''no'', [\<lambda>Z. Some Z])]"
proof -
  from length_6[OF lx] obtain x0 x1 x2 x3 x4 x5 where X: "X = [x0, x1, x2, x3, x4, x5]" by blast
  from length_6[OF ly] obtain y0 y1 y2 y3 y4 y5 where y: "y = [y0, y1, y2, y3, y4, y5]" by blast
  from f1 obtain m10 m11 m12 p1 where m1:
    "est_fit e1 [x2, x3, x4, x5] [y2, y3, y4, y5] = Some m10"
    "est_fit e1 [x0, x1, x4, x5] [y0, y1, y4, y5] = Some m11"
    "est_fit e1 [x0, x1, x2, x3] [y0, y1, y2, y3] = Some m12"
    "est_fit e1 [x0, x1, x2, x3, x4, x5] [y0, y1, y2, y3, y4, y5] = Some p1"
    by (metis not_None_eq)
  from f2 obtain m20 m21 m22 p2 where m2:
    "est_fit e2 [x2, x3, x4, x5] [y2, y3, y4, y5] = Some m20"
    "est_fit e2 [x0, x1, x4, x5] [y0, y1, y4, y5] = Some m21"
    "est_fit e2 [x0, x1, x2, x3] [y0, y1, y2, y3] = Some m22"
    "est_fit e2 [x0, x1, x2, x3, x4, x5] [y0, y1, y2, y3, y4, y5] = Some p2"
    by (metis not_None_eq)
  from layer_fit_scenario[OF m1(1,2,3) m2(1,2,3) m1(4) m2(4)] show ?thesis
    unfolding X y by simp
qed

text \<open>
  C7. For a layer that has been fit on \<open>X\<close> and \<open>y\<close>, whose pairs have distinct keys and
  whose production chains apply to the input \<open>X'\<close> and keep its number of rows,
  \<open>Layer.predict\<close>, and \<open>LayerContainer.predict\<close> of a container of that layer, return the
  matrix of the reference: row by row of \<open>X'\<close>, one cell per pair in the order of the
  pairs, from the chain and the estimator fitted on the entire training data. The matrix
  is the same whatever fold count the layer was fit with.
\<close>

theorem layer_predict_production:
  assumes fit: "layer_fit L X y = Inr (P, st)" and dis: "distinct (map fst (layer_pairs L))"
    and rows: "\<forall>((c, e), est) \<in> set (layer_pairs L). \<forall>chain.
                 map_of (production_chain st) c = Some chain \<longrightarrow>
                 (\<exists>Z'. apply_chain chain X' = Some Z' \<and> length Z' = length X')"
  shows "\<exists>Q. layer_predict L st X' = Inr Q \<and> container_predict [L] [st] X' = Inr Q \<and>
           map (map Some) Q = ground_truth_predict (layer_cases L) (layer_pairs L) X y X' \<and>
           (\<forall>k P' st'. layer_fit (L\<lparr>layer_folds := k\<rparr>) X y = Inr (P', st') \<longrightarrow>
               layer_predict (L\<lparr>layer_folds := k\<rparr>) st' X' = Inr Q)"
proof -
  note pr = layer_fit_production[OF fit]
  from predict_from_production[OF pr[THEN conjunct1] pr[THEN conjunct2] dis rows]
  obtain Q where
    q: "predict_pairs st (enumerate 0 (layer_pairs L)) X' (zeros (length X') (length (layer_pairs L))) = Inr Q"
    and g: "map (map Some) Q = ground_truth_predict (layer_cases L) (layer_pairs L) X y X'"
    by blast
  have lp: "layer_predict L st X' = Inr Q" using q by (simp add: layer_predict_def)
  then have cp: "container_predict [L] [st] X' = Inr Q" by simp
  have nf: "\<forall>k P' st'. layer_fit (L\<lparr>layer_folds := k\<rparr>) X y = Inr (P', st') \<longrightarrow>
               layer_predict (L\<lparr>layer_folds := k\<rparr>) st' X' = Inr Q"
  proof (intro allI impI)
    fix k P' st' assume fit': "layer_fit (L\<lparr>layer_folds := k\<rparr>) X y = Inr (P', st')"
    note pr' = layer_fit_production[OF fit']
    from pr'[THEN conjunct1] pr[THEN conjunct1] have same: "production_chain st' = production_chain st"
      by simp
    have pc': "fit_production_chains (layer_cases L) X = Inr (production_chain st')"
      using pr'[THEN conjunct1] by simp
    have pm': "fit_production_models (production_chain st') (layer_pairs L) X y = Inr (production_model st')"
      using pr'[THEN conjunct2] by simp
    have rows': "\<forall>((c, e), est) \<in> set (layer_pairs L). \<forall>chain.
                 map_of (production_chain st') c = Some chain \<longrightarrow>
                 (\<exists>Z'. apply_chain chain X' = Some Z' \<and> length Z' = length X')"
      using rows unfolding same .
    from predict_from_production[OF pc' pm' dis rows']
    obtain Q' where
      q': "predict_pairs st' (enumerate 0 (layer_pairs L)) X' (zeros (length X') (length (layer_pairs L))) = Inr Q'"
      and g': "map (map Some) Q' = ground_truth_predict (layer_cases L) (layer_pairs L) X y X'"
      by blast
    from g g' have "map (map Some) Q' = map (map Some) Q" by simp
    then have "Q' = Q" by (simp add: inj_map_eq_map)
    with q' show "layer_predict (L\<lparr>layer_folds := k\<rparr>) st' X' = Inr Q"
      by (simp add: layer_predict_def)
  qed
  from lp cp g nf show ?thesis by blast
qed

text \<open>The theorem at the layer of the scenario, fit on six samples, for two new samples.\<close>

theorem layer_predict_production_witness:
  "\<exists>P st Q. layer_fit (scenario_layer label_sum_estimator feature_sum_estimator) demo_X demo_y
        = Inr (P, st) \<and>
     layer_predict (scenario_layer label_sum_estimator feature_sum_estimator) st demo_X_new = Inr Q \<and>
     container_predict [scenario_layer label_sum_estimator feature_sum_estimator] [st] demo_X_new
        = Inr Q \<and>
     map (map Some) Q =
       ground_truth_predict (layer_cases (scenario_layer label_sum_estimator feature_sum_estimator))
         (layer_pairs (scenario_layer label_sum_estimator feature_sum_estimator))
         demo_X demo_y demo_X_new"
proof -
  let ?L = "scenario_layer label_sum_estimator feature_sum_estimator"
  have "\<exists>P st. layer_fit ?L demo_X demo_y = Inr (P, st) \<and>
           production_chain st = [(''no'', [\<lambda>Z. Some Z])]"
    by (rule layer_fit_scenario_state)
       (simp_all add: demo_X_def demo_y_def label_sum_estimator_def feature_sum_estimator_def)
  then obtain P st where fit: "layer_fit ?L demo_X demo_y = Inr (P, st)"
    and pc: "production_chain st = [(''no'', [\<lambda>Z. Some Z])]" by blast
  have dis: "distinct (map fst (layer_pairs ?L))" by (simp add: scenario_layer_def)
  have rows: "\<forall>((c, e), est) \<in> set (layer_pairs ?L). \<forall>chain.
                 map_of (production_chain st) c = Some chain \<longrightarrow>
                 (\<exists>Z'. apply_chain chain demo_X_new = Some Z' \<and> length Z' = length demo_X_new)"
    by (simp add: scenario_layer_def pc)
  from layer_predict_production[OF fit dis rows] fit show ?thesis by blast
qed

subsection \<open>Input from files\<close>



end
